theory Spec2Isabelle
  imports Main "HOL-Library.AList"
begin

section \<open>Values of the notebook\<close>

text \<open>
  The notebook \<^verbatim>\<open>3-tool.ipynb\<close> pipes the model's reply through
  \<^verbatim>\<open>JsonOutputParser()\<close> and hands the parsed value to \<^verbatim>\<open>tool_chain\<close>.
  A parsed value is a Python object built from JSON: \<^verbatim>\<open>None\<close>, a bool, an int,
  a str, a list or a dict with str keys. A dict is kept as an association list in
  insertion order, its keys distinct; \<^verbatim>\<open>d[k]\<close> is \<open>map_of\<close>. JSON numbers with a
  fraction (Python floats) are left out of the embedding.
\<close>

datatype json =
    JNull
  | JBool bool
  | JInt int
  | JStr string
  | JArr "json list"
  | JObj "(string \<times> json) list"

text \<open>
  The exceptions that can leave the chain. \<open>KeyError\<close> carries the key that was not
  found, \<open>ValidationError\<close> the list of (location, message) pairs that pydantic reports.
\<close>

datatype error =
    KeyError json
  | TypeError
  | ValidationError "(string \<times> string) list"
  | StopIteration
  | AssertionError

text \<open>
  Calling a tool's Python function is the one effect of the chain. It is made visible
  as a log: one entry per call that entered a function, with the tool's name and the
  values its parameters received, in the order of the parameters.
\<close>

type_synonym call = "string \<times> json list"

type_synonym outcome = "(error + json) \<times> call list"

type_synonym runnable = "json \<Rightarrow> outcome"

section \<open>Tools\<close>

text \<open>
  The decorator \<^verbatim>\<open>@tool\<close>, \<^verbatim>\<open>tool.invoke\<close> and \<^verbatim>\<open>render_text_description\<close>
  belong to the library that the notebook imports (langchain-core 0.2, whose schemas
  are pydantic v1 models); their code is not in the repository. They are modelled as
  the library runs them, and the cells of the notebook that record their output are
  replayed below.

  \<^verbatim>\<open>@tool\<close> wraps a function into a tool with a \<^verbatim>\<open>name\<close> (the function's),
  a \<^verbatim>\<open>description\<close> (its docstring), an \<^verbatim>\<open>args_schema\<close> with one required field
  per parameter, in the order of the signature, and the function itself, \<^verbatim>\<open>func\<close>.
  A field has the parameter's name, the text of its annotation, if it has one, and the
  validator of its type: the message of the failure, or the value as the type coerces
  it. The names of the fields are the names of the function's parameters, in the
  order of the signature; \<open>func\<close> takes the values of its parameters in that
  order. The return annotation is kept for the signature. Parameters with a default
  value (they would make a field optional) and parameters of the kinds
  \<^verbatim>\<open>*args\<close> and \<^verbatim>\<open>**kwargs\<close> do not occur in the notebook and are left out.
\<close>

record schema_field =
  fname :: string
  annotation :: "string option"
  validator :: "json \<Rightarrow> string + json"

record tool =
  name :: string
  description :: string
  args_schema :: "schema_field list"
  return_annotation :: "string option"
  func :: "json list \<Rightarrow> error + json"

text \<open>Python's \<^verbatim>\<open>str(n)\<close> of an int.\<close>

fun str_nat :: "nat \<Rightarrow> string" where
  "str_nat n =
     (if n < 10 then [''0123456789'' ! n]
      else str_nat (n div 10) @ [''0123456789'' ! (n mod 10)])"

declare str_nat.simps [simp del]

definition str_int :: "int \<Rightarrow> string" where
  "str_int i = (if i < 0 then CHR ''-'' # str_nat (nat (- i)) else str_nat (nat i))"

text \<open>
  The validator of a field annotated \<^verbatim>\<open>str\<close>: a str passes, an int (a bool is one)
  becomes its \<^verbatim>\<open>str()\<close>, \<^verbatim>\<open>None\<close> and containers are refused.
\<close>

fun str_validator :: "json \<Rightarrow> string + json" where
  "str_validator (JStr s) = Inr (JStr s)"
| "str_validator (JInt i) = Inr (JStr (str_int i))"
| "str_validator (JBool b) = Inr (JStr (if b then ''True'' else ''False''))"
| "str_validator JNull = Inl ''none is not an allowed value''"
| "str_validator (JArr xs) = Inl ''str type expected''"
| "str_validator (JObj kvs) = Inl ''str type expected''"

text \<open>
  Validation of a dict against the schema (\<^verbatim>\<open>args_schema.parse_obj\<close>): every field is
  looked up by name; one that is absent is reported as \<^verbatim>\<open>field required\<close>, one whose
  value its type refuses with the type's message. All failures are collected into one
  \<open>ValidationError\<close>. Keys of the dict that the schema does not declare are not
  looked at. Without a failure the result has the coerced value of each field, in the
  order of the schema.
\<close>

definition validate_field :: "(string \<times> json) list \<Rightarrow> schema_field \<Rightarrow> (string \<times> string) + json" where
  "validate_field kvs f =
     (case map_of kvs (fname f) of
        None \<Rightarrow> Inl (fname f, ''field required'')
      | Some v \<Rightarrow>
          (case validator f v of
             Inl msg \<Rightarrow> Inl (fname f, msg)
           | Inr w \<Rightarrow> Inr w))"

fun failures :: "('e + 'v) list \<Rightarrow> 'e list" where
  "failures [] = []"
| "failures (Inl e # rs) = e # failures rs"
| "failures (Inr v # rs) = failures rs"

fun successes :: "('e + 'v) list \<Rightarrow> 'v list" where
  "successes [] = []"
| "successes (Inl e # rs) = successes rs"
| "successes (Inr v # rs) = v # successes rs"

definition parse_obj :: "schema_field list \<Rightarrow> (string \<times> json) list \<Rightarrow> error + json list" where
  "parse_obj fs kvs =
     (let rs = map (validate_field kvs) fs
      in if failures rs = [] then Inr (successes rs) else Inl (ValidationError (failures rs)))"

text \<open>
  \<^verbatim>\<open>tool.invoke(tool_input)\<close>, as the library runs a tool that \<^verbatim>\<open>@tool\<close> made
  from a function:
  \<^verbatim>\<open>
  def _parse_input(self, tool_input):
      input_args = self.args_schema
      if isinstance(tool_input, str):
          key_ = next(iter(input_args.__fields__.keys()))
          input_args.validate({key_: tool_input})
          return tool_input
      else:
          result = input_args.parse_obj(tool_input)
          return {k: getattr(result, k)
                  for k, v in result.dict().items() if k in tool_input}

  def _to_args_and_kwargs(self, tool_input):
      if isinstance(tool_input, str):
          return (tool_input,), {}
      else:
          return (), tool_input
  \<close>
  followed by \<^verbatim>\<open>self.func(*args, **kwargs)\<close>. A dict is validated, the validated
  fields that the input has are collected into the keyword arguments, and the function
  is called with them: so each parameter receives the value stored under its own
  name, and the keys that the schema does not declare never reach the function. A
  str is validated as the value of the first field and then passed as the single
  positional argument. An int, a bool or \<^verbatim>\<open>None\<close> is refused by \<^verbatim>\<open>parse_obj\<close>
  at \<^verbatim>\<open>__root__\<close>. For a list the library first tries \<^verbatim>\<open>dict(tool_input)\<close>;
  that corner is not modelled, a list is given the outcome of the other values that
  are not a dict, and no statement below is about it. The function is entered only
  after validation has passed.
\<close>

text \<open>The dict comprehension of \<^verbatim>\<open>_parse_input\<close>: the keyword arguments.\<close>

definition kwargs_of :: "schema_field list \<Rightarrow> (string \<times> json) list \<Rightarrow> json list \<Rightarrow> (string \<times> json) list" where
  "kwargs_of fs kvs vs =
     map (\<lambda>(f, v). (fname f, v)) (filter (\<lambda>(f, v). map_of kvs (fname f) \<noteq> None) (zip fs vs))"

text \<open>
  The call \<^verbatim>\<open>func(**kwargs)\<close>: a keyword that is not a parameter of the function and
  a parameter without a keyword argument are a \<open>TypeError\<close>, raised before the
  function is entered; otherwise every parameter is bound to the argument of its
  name.
\<close>

definition call_kwargs :: "tool \<Rightarrow> (string \<times> json) list \<Rightarrow> outcome" where
  "call_kwargs t kwargs =
     (if list_ex (\<lambda>k. k \<notin> set (map fname (args_schema t))) (map fst kwargs) then (Inl TypeError, [])
      else (case those (map (map_of kwargs) (map fname (args_schema t))) of
              None \<Rightarrow> (Inl TypeError, [])
            | Some vs \<Rightarrow> (func t vs, [(name t, vs)])))"

fun type_name :: "json \<Rightarrow> string" where
  "type_name JNull = ''NoneType''"
| "type_name (JBool b) = ''bool''"
| "type_name (JInt i) = ''int''"
| "type_name (JStr s) = ''str''"
| "type_name (JArr xs) = ''list''"
| "type_name (JObj kvs) = ''dict''"

fun invoke :: "tool \<Rightarrow> json \<Rightarrow> outcome" where
  "invoke t (JObj kvs) =
     (case parse_obj (args_schema t) kvs of
        Inl e \<Rightarrow> (Inl e, [])
      | Inr vs \<Rightarrow> call_kwargs t (kwargs_of (args_schema t) kvs vs))"
| "invoke t (JStr s) =
     (case args_schema t of
        [] \<Rightarrow> (Inl StopIteration, [])
      | f # fs \<Rightarrow>
          (case parse_obj (args_schema t) [(fname f, JStr s)] of
             Inl e \<Rightarrow> (Inl e, [])
           | Inr vs \<Rightarrow> (func t [JStr s], [(name t, [JStr s])])))"
| "invoke t v =
     (Inl (ValidationError [(''__root__'', name t @ ''Schema expected dict not '' @ type_name v)]), [])"

subsection \<open>The two tools of the notebook\<close>

text \<open>
  \<^verbatim>\<open>
  @tool
  def negative_comment(game: str) -> str:
    '''Give negative comment to this game.'''
    return f'{game} seems not better than Genshin Impact...'

  @tool
  def positive_comment(game: str) -> str:
    '''Give positive comment to this game.'''
    return f'{game} is the best game in the world !!!'
  \<close>
  Both functions have one parameter; a call with another number of arguments is a
  \<open>TypeError\<close>. Through \<open>invoke\<close> the parameter always receives a str: the schema
  coerces or refuses every other value. For a value that is not a str the model stops
  with a \<open>TypeError\<close> where Python would format the value.
\<close>

definition game_field :: schema_field where
  "game_field = \<lparr>fname = ''game'', annotation = Some ''str'', validator = str_validator\<rparr>"

fun negative_comment_func :: "json list \<Rightarrow> error + json" where
  "negative_comment_func [JStr game] = Inr (JStr (game @ '' seems not better than Genshin Impact...''))"
| "negative_comment_func xs = Inl TypeError"

fun positive_comment_func :: "json list \<Rightarrow> error + json" where
  "positive_comment_func [JStr game] = Inr (JStr (game @ '' is the best game in the world !!!''))"
| "positive_comment_func xs = Inl TypeError"

definition negative_comment :: tool where
  "negative_comment =
     \<lparr>name = ''negative_comment'',
      description = ''Give negative comment to this game.'',
      args_schema = [game_field],
      return_annotation = Some ''str'',
      func = negative_comment_func\<rparr>"

definition positive_comment :: tool where
  "positive_comment =
     \<lparr>name = ''positive_comment'',
      description = ''Give positive comment to this game.'',
      args_schema = [game_field],
      return_annotation = Some ''str'',
      func = positive_comment_func\<rparr>"

definition tools :: "tool list" where
  "tools = [negative_comment, positive_comment]"

section \<open>The dispatch chain\<close>

text \<open>
  \<^verbatim>\<open>obj[k]\<close> for a str key on a parsed value: a dict without the key raises
  \<open>KeyError\<close>, every other value a \<open>TypeError\<close>.
\<close>

fun getitem :: "json \<Rightarrow> string \<Rightarrow> error + json" where
  "getitem (JObj kvs) k =
     (case map_of kvs k of
        None \<Rightarrow> Inl (KeyError (JStr k))
      | Some v \<Rightarrow> Inr v)"
| "getitem v k = Inl TypeError"

text \<open>
  \<^verbatim>\<open>tool_map[key]\<close>: the keys of \<^verbatim>\<open>tool_map\<close> are strs. A list or a dict is not
  hashable; any other key that is not in the dict raises \<open>KeyError\<close>.
\<close>

fun tool_map_getitem :: "(string \<rightharpoonup> tool) \<Rightarrow> json \<Rightarrow> error + tool" where
  "tool_map_getitem m (JStr s) =
     (case m s of
        None \<Rightarrow> Inl (KeyError (JStr s))
      | Some t \<Rightarrow> Inr t)"
| "tool_map_getitem m (JArr xs) = Inl TypeError"
| "tool_map_getitem m (JObj kvs) = Inl TypeError"
| "tool_map_getitem m v = Inl (KeyError v)"

text \<open>
  The pieces of the expression language: a plain function used as a step
  (\<^verbatim>\<open>itemgetter('arguments')\<close>), the pipe \<^verbatim>\<open>a | b\<close>, which feeds the output of
  \<^verbatim>\<open>a\<close> to \<^verbatim>\<open>b\<close> and stops at the first exception, and a function that returns a
  runnable: used as a step, its result is invoked on the same input.
\<close>

definition itemgetter :: "string \<Rightarrow> runnable" where
  "itemgetter k x = (getitem x k, [])"

definition pipe :: "runnable \<Rightarrow> runnable \<Rightarrow> runnable" where
  "pipe a b x =
     (case a x of
        (Inl e, cs) \<Rightarrow> (Inl e, cs)
      | (Inr y, cs) \<Rightarrow> (case b y of (r, cs') \<Rightarrow> (r, cs @ cs')))"

definition runnable_lambda :: "(json \<Rightarrow> error + runnable) \<Rightarrow> runnable" where
  "runnable_lambda f x =
     (case f x of
        Inl e \<Rightarrow> (Inl e, [])
      | Inr r \<Rightarrow> r x)"

text \<open>
  \<^verbatim>\<open>
  def tool_chain(model_output):
      tool_map = {tool.name: tool for tool in tools}
      chosen_tool = tool_map[model_output['name']]
      return itemgetter('arguments') | chosen_tool
  \<close>
  The comprehension inserts the tools one after the other; \<open>register\<close> is one
  insertion.
\<close>

definition register :: "tool \<Rightarrow> (string \<rightharpoonup> tool) \<Rightarrow> (string \<rightharpoonup> tool)" where
  "register t m = m(name t \<mapsto> t)"

definition tool_map :: "tool list \<Rightarrow> (string \<rightharpoonup> tool)" where
  "tool_map ts = foldl (\<lambda>m t. register t m) Map.empty ts"

definition tool_chain :: "tool list \<Rightarrow> json \<Rightarrow> error + runnable" where
  "tool_chain ts model_output =
     (case getitem model_output ''name'' of
        Inl e \<Rightarrow> Inl e
      | Inr key \<Rightarrow>
          (case tool_map_getitem (tool_map ts) key of
             Inl e \<Rightarrow> Inl e
           | Inr chosen_tool \<Rightarrow> Inr (pipe (itemgetter ''arguments'') (invoke chosen_tool))))"

text \<open>
  The last step of \<^verbatim>\<open>prompt | model | JsonOutputParser() | tool_chain\<close>, applied to
  the parsed reply: the dispatch of a decision.
\<close>

definition dispatch :: "tool list \<Rightarrow> runnable" where
  "dispatch ts = runnable_lambda (tool_chain ts)"

text \<open>
  \<^verbatim>\<open>RunnablePassthrough.assign(output=tool_chain)\<close>: the input must be a dict; the
  result is the input with the key \<^verbatim>\<open>output\<close> set to what the step returns.
\<close>

definition assign_output :: "runnable \<Rightarrow> runnable" where
  "assign_output r x =
     (case x of
        JObj kvs \<Rightarrow>
          (case r x of
             (Inl e, cs) \<Rightarrow> (Inl e, cs)
           | (Inr v, cs) \<Rightarrow> (Inr (JObj (AList.update ''output'' v kvs)), cs))
      | _ \<Rightarrow> (Inl AssertionError, []))"

section \<open>The catalogue of tools\<close>

text \<open>
  \<^verbatim>\<open>render_text_description(tools)\<close>, as the library has it:
  \<^verbatim>\<open>
  descriptions = []
  for tool in tools:
      sig = signature(tool.func)
      description = f"{tool.name}{sig} - {tool.description}"
      descriptions.append(description)
  return "\n".join(descriptions)
  \<close>
  (A tool without a function gets \<^verbatim>\<open>name - description\<close>; \<^verbatim>\<open>@tool\<close> always keeps
  the function.) \<^verbatim>\<open>inspect.signature\<close> prints a parameter as its name, followed by a
  colon and the annotation if it has one, the parameters separated by a comma and a
  space and set in parentheses, and then an arrow and the return annotation if the
  function has one. The cell \<^verbatim>\<open>render_text_description([negative_comment])\<close> records
  \<^verbatim>\<open>'negative_comment(game: str) -> str - Give negative comment to this game.'\<close>.
\<close>

text \<open>Python's \<^verbatim>\<open>sep.join(xs)\<close>.\<close>

fun join :: "string \<Rightarrow> string list \<Rightarrow> string" where
  "join sep [] = []"
| "join sep [x] = x"
| "join sep (x # y # ys) = x @ sep @ join sep (y # ys)"

definition newline :: char where
  "newline = CHR 0x0A"






section \<open>The decision parser\<close>

text \<open>
  The notebook parses the model's reply with the library's
  \<^verbatim>\<open>JsonOutputParser()\<close>; the code of that parser is not part of the repository,
  and the repository never writes a decision back to text. The parser and the
  serialisation of this section follow the contract of the specification
  (section 4.3, Decision Parser) and JSON's grammar (RFC 8259). A text is a sequence
  of bytes, the UTF-8 encoding of its characters, and so is every string of a value.
\<close>

text \<open>Modelled from the spec: a JSON number, the \<^verbatim>\<open>value\<close> of section 3 that a
  number denotes (the repository has no type for it). A number is kept as the decimal
  that its text denotes, exactly: zero, or a sign (\<open>True\<close> for minus), the digits
  before the last significant digit as a natural number, the last significant digit,
  which is not 0, and the power of ten. \<open>Decimal neg h d e\<close> is
  \<open>\<plusminus> (10 * h + d) * 10 ^ e\<close>: 1.5 is \<open>Decimal False 1 D5 (- 1)\<close>,
  \<open>- 1500\<close> is \<open>Decimal True 1 D5 2\<close>. Every number has one such form, so
  \<^verbatim>\<open>1\<close>, \<^verbatim>\<open>1.0\<close> and \<^verbatim>\<open>10e-1\<close> denote the same value. Binary floating
  point, which rounds, is not modelled.\<close>

datatype digit = D1 | D2 | D3 | D4 | D5 | D6 | D7 | D8 | D9

fun digit_val :: "digit \<Rightarrow> nat" where
  "digit_val D1 = 1"
| "digit_val D2 = 2"
| "digit_val D3 = 3"
| "digit_val D4 = 4"
| "digit_val D5 = 5"
| "digit_val D6 = 6"
| "digit_val D7 = 7"
| "digit_val D8 = 8"
| "digit_val D9 = 9"

datatype jnumber = Zero | Decimal bool nat digit int

text \<open>Modelled from the spec: the values of JSON, which the \<^verbatim>\<open>arguments\<close> of a
  \<^verbatim>\<open>Decision\<close> (section 3) map parameter names to: null, a bool, a number, a
  string, an array, an object. An object is kept as an association list in the order
  of its members.\<close>

datatype jvalue =
    VNull
  | VBool bool
  | VNum jnumber
  | VStr string
  | VArr "jvalue list"
  | VObj "(string \<times> jvalue) list"

text \<open>Modelled from the spec: the characters JSON text is made of (JSON's grammar;
  no JSON reader is in the repository).\<close>

definition dquote :: char where
  "dquote = CHR 0x22"

definition backslash :: char where
  "backslash = CHR 0x5C"

definition is_ws :: "char \<Rightarrow> bool" where
  "is_ws c \<longleftrightarrow> c = CHR '' '' \<or> c = CHR 0x09 \<or> c = CHR 0x0A \<or> c = CHR 0x0D"

definition skip_ws :: "string \<Rightarrow> string" where
  "skip_ws s = dropWhile is_ws s"

definition is_digit :: "char \<Rightarrow> bool" where
  "is_digit c \<longleftrightarrow> c \<in> set ''0123456789''"

definition digit_of :: "char \<Rightarrow> nat" where
  "digit_of c = of_char c - 48"

definition digits_value :: "string \<Rightarrow> nat" where
  "digits_value ds = foldl (\<lambda>a d. 10 * a + digit_of d) 0 ds"

definition hex_digit :: "nat \<Rightarrow> char" where
  "hex_digit n = ''0123456789abcdef'' ! n"

definition hex_val :: "char \<Rightarrow> nat option" where
  "hex_val c =
     (if is_digit c then Some (digit_of c)
      else if c \<in> set ''abcdef'' then Some (of_char c - 87)
      else if c \<in> set ''ABCDEF'' then Some (of_char c - 55)
      else None)"

text \<open>Modelled from the spec: the JSON serialisation of a number, part of the
  \<^verbatim>\<open>stringify(decision)\<close> of section 8, which the repository does not have. An
  integer is written with all its digits, any other number with a decimal point and
  without an exponent: \<^verbatim>\<open>-1500\<close>, \<^verbatim>\<open>1.5\<close>, \<^verbatim>\<open>0.015\<close>.\<close>

definition print_number :: "jnumber \<Rightarrow> string" where
  "print_number x =
     (case x of
        Zero \<Rightarrow> ''0''
      | Decimal neg h d e \<Rightarrow>
          (if neg then ''-'' else []) @
          (let ds = str_nat (10 * h + digit_val d)
           in if 0 \<le> e then ds @ replicate (nat e) CHR ''0''
              else if nat (- e) < length ds then
                take (length ds - nat (- e)) ds @ ''.'' @ drop (length ds - nat (- e)) ds
              else ''0.'' @ replicate (nat (- e) - length ds) CHR ''0'' @ ds))"

text \<open>Modelled from the spec: the JSON serialisation of a value, which
  \<^verbatim>\<open>stringify(decision)\<close> of section 8 needs and the repository does not have. A
  string is quoted, with the quote and the backslash escaped, the control characters
  that have a short escape written with it and the other ones as \<^verbatim>\<open>\u00XX\<close>;
  every other byte stands for itself. Members and elements are separated by a comma
  and a space, a key and its value by a colon and a space.\<close>

definition escape_char :: "char \<Rightarrow> string" where
  "escape_char c =
     (if c = dquote then [backslash, dquote]
      else if c = backslash then [backslash, backslash]
      else if c = CHR 0x08 then [backslash, CHR ''b'']
      else if c = CHR 0x09 then [backslash, CHR ''t'']
      else if c = CHR 0x0A then [backslash, CHR ''n'']
      else if c = CHR 0x0C then [backslash, CHR ''f'']
      else if c = CHR 0x0D then [backslash, CHR ''r'']
      else if of_char c < (32::nat) then
        backslash # ''u00'' @ [hex_digit (of_char c div 16), hex_digit (of_char c mod 16)]
      else [c])"

definition print_string :: "string \<Rightarrow> string" where
  "print_string s = dquote # concat (map escape_char s) @ [dquote]"

fun print_value :: "jvalue \<Rightarrow> string" where
  "print_value VNull = ''null''"
| "print_value (VBool b) = (if b then ''true'' else ''false'')"
| "print_value (VNum x) = print_number x"
| "print_value (VStr s) = print_string s"
| "print_value (VArr xs) = ''['' @ join '', '' (map print_value xs) @ '']''"
| "print_value (VObj kvs) =
     ''{'' @ join '', '' (map (\<lambda>(k, v). print_string k @ '': '' @ print_value v) kvs) @ ''}''"

text \<open>Modelled from the spec: reading a JSON string after its opening quote (the
  repository has no JSON reader): up to the closing quote, with the escapes of JSON.
  An escape \<^verbatim>\<open>\uXXXX\<close> gives the UTF-8 bytes of its character; a high surrogate
  must be followed by the escape of a low surrogate, and the pair gives one character;
  a surrogate on its own is refused, and so is a raw control character.\<close>

definition unescape :: "char \<Rightarrow> char option" where
  "unescape e =
     (if e = dquote then Some dquote
      else if e = backslash then Some backslash
      else if e = CHR ''/'' then Some CHR ''/''
      else if e = CHR ''b'' then Some (CHR 0x08)
      else if e = CHR ''f'' then Some (CHR 0x0C)
      else if e = CHR ''n'' then Some (CHR 0x0A)
      else if e = CHR ''r'' then Some (CHR 0x0D)
      else if e = CHR ''t'' then Some (CHR 0x09)
      else None)"

definition hex4 :: "char \<Rightarrow> char \<Rightarrow> char \<Rightarrow> char \<Rightarrow> nat option" where
  "hex4 a b c d =
     (case (hex_val a, hex_val b, hex_val c, hex_val d) of
        (Some x, Some y, Some z, Some w) \<Rightarrow> Some (((x * 16 + y) * 16 + z) * 16 + w)
      | _ \<Rightarrow> None)"

definition utf8 :: "nat \<Rightarrow> string" where
  "utf8 n =
     (if n < 0x80 then [char_of n]
      else if n < 0x800 then [char_of (0xC0 + n div 64), char_of (0x80 + n mod 64)]
      else if n < 0x10000 then
        [char_of (0xE0 + n div 4096), char_of (0x80 + n div 64 mod 64), char_of (0x80 + n mod 64)]
      else
        [char_of (0xF0 + n div 262144), char_of (0x80 + n div 4096 mod 64),
         char_of (0x80 + n div 64 mod 64), char_of (0x80 + n mod 64)])"

definition app_chars :: "string \<Rightarrow> (string \<times> string) option \<Rightarrow> (string \<times> string) option" where
  "app_chars cs r = (case r of None \<Rightarrow> None | Some (s, rest) \<Rightarrow> Some (cs @ s, rest))"

fun parse_chars :: "string \<Rightarrow> (string \<times> string) option" where
  "parse_chars [] = None"
| "parse_chars (c # cs) =
     (if c = dquote then Some ([], cs)
      else if c = backslash then
        (case cs of
           [] \<Rightarrow> None
         | e # r \<Rightarrow>
             if e = CHR ''u'' then
               (case r of
                  h1 # h2 # h3 # h4 # r' \<Rightarrow>
                    (case hex4 h1 h2 h3 h4 of
                       None \<Rightarrow> None
                     | Some n \<Rightarrow>
                         if 0xD800 \<le> n \<and> n < 0xDC00 then
                           (case r' of
                              b # u # l1 # l2 # l3 # l4 # r'' \<Rightarrow>
                                if b = backslash \<and> u = CHR ''u'' then
                                  (case hex4 l1 l2 l3 l4 of
                                     None \<Rightarrow> None
                                   | Some m \<Rightarrow>
                                       if 0xDC00 \<le> m \<and> m < 0xE000 then
                                         app_chars (utf8 (0x10000 + (n - 0xD800) * 1024 + (m - 0xDC00)))
                                           (parse_chars r'')
                                       else None)
                                else None
                            | _ \<Rightarrow> None)
                         else if 0xDC00 \<le> n \<and> n < 0xE000 then None
                         else app_chars (utf8 n) (parse_chars r'))
                | _ \<Rightarrow> None)
             else
               (case unescape e of
                  None \<Rightarrow> None
                | Some d \<Rightarrow> app_chars [d] (parse_chars r)))
      else if of_char c < (32::nat) then None
      else app_chars [c] (parse_chars cs))"

text \<open>Modelled from the spec: reading the literals \<^verbatim>\<open>true\<close>, \<^verbatim>\<open>false\<close>,
  \<^verbatim>\<open>null\<close> and a number (the repository has no JSON reader). A number is an
  optional minus, digits without a leading zero, an optional fraction (a point and
  digits) and an optional exponent (\<^verbatim>\<open>e\<close> or \<^verbatim>\<open>E\<close>, an optional sign, digits).
  \<open>decimal\<close> brings the digits read and the power of ten into the one form of the
  number: trailing zero digits go into the power of ten.\<close>

definition literal :: "string \<Rightarrow> jvalue \<Rightarrow> string \<Rightarrow> (jvalue \<times> string) option" where
  "literal w v s = (if take (length w) s = w then Some (v, drop (length w) s) else None)"

definition nonzero_digit :: "nat \<Rightarrow> digit" where
  "nonzero_digit n = [D1, D2, D3, D4, D5, D6, D7, D8, D9] ! (n - 1)"

fun decimal :: "bool \<Rightarrow> nat \<Rightarrow> int \<Rightarrow> jnumber" where
  "decimal neg m e =
     (if m = 0 then Zero
      else if m mod 10 = 0 then decimal neg (m div 10) (e + 1)
      else Decimal neg (m div 10) (nonzero_digit (m mod 10)) e)"

declare decimal.simps [simp del]

definition fraction :: "string \<Rightarrow> (string \<times> string) option" where
  "fraction s =
     (case s of
        [] \<Rightarrow> Some ([], s)
      | c # cs \<Rightarrow>
          if c = CHR ''.'' then
            (if takeWhile is_digit cs = [] then None
             else Some (takeWhile is_digit cs, dropWhile is_digit cs))
          else Some ([], s))"

definition exponent :: "string \<Rightarrow> (int \<times> string) option" where
  "exponent s =
     (case s of
        [] \<Rightarrow> Some (0, s)
      | c # cs \<Rightarrow>
          if c = CHR ''e'' \<or> c = CHR ''E'' then
            (let neg = (case cs of [] \<Rightarrow> False | x # xs \<Rightarrow> x = CHR ''-'');
                 s1 = (case cs of [] \<Rightarrow> [] | x # xs \<Rightarrow> if x = CHR ''-'' \<or> x = CHR ''+'' then xs else cs);
                 ds = takeWhile is_digit s1
             in if ds = [] then None
                else Some (if neg then - int (digits_value ds) else int (digits_value ds),
                           dropWhile is_digit s1))
          else Some (0, s))"

definition number :: "string \<Rightarrow> (jvalue \<times> string) option" where
  "number s =
     (let neg = (case s of [] \<Rightarrow> False | c # cs \<Rightarrow> c = CHR ''-'');
          s1 = (if neg then tl s else s);
          ip = takeWhile is_digit s1
      in if ip = [] then None
         else if hd ip = CHR ''0'' \<and> tl ip \<noteq> [] then None
         else (case fraction (dropWhile is_digit s1) of
                 None \<Rightarrow> None
               | Some (fp, r2) \<Rightarrow>
                   (case exponent r2 of
                      None \<Rightarrow> None
                    | Some (ex, r3) \<Rightarrow>
                        Some (VNum (decimal neg (digits_value (ip @ fp)) (ex - int (length fp))), r3))))"

text \<open>Modelled from the spec: an object from the members read, a mapping as the
  \<^verbatim>\<open>arguments\<close> of section 3 are one: a key that occurs again keeps its place and
  takes the later value, as in the repository's Python dicts.\<close>

definition dict_of :: "(string \<times> jvalue) list \<Rightarrow> (string \<times> jvalue) list" where
  "dict_of kvs = foldl (\<lambda>m (k, v). AList.update k v m) [] kvs"

text \<open>Modelled from the spec: reading one JSON value at the start of a text (the
  reader that the library's parser stands for), with the rest of the text. The first
  argument bounds the number of nested calls; the length of the text is always
  enough, since every call consumes a character.\<close>

fun parse_value :: "nat \<Rightarrow> string \<Rightarrow> (jvalue \<times> string) option"
  and parse_elements :: "nat \<Rightarrow> string \<Rightarrow> (jvalue list \<times> string) option"
  and parse_members :: "nat \<Rightarrow> string \<Rightarrow> ((string \<times> jvalue) list \<times> string) option" where
  "parse_value 0 s = None"
| "parse_value (Suc n) s =
     (case skip_ws s of
        [] \<Rightarrow> None
      | c # cs \<Rightarrow>
          if c = CHR ''{'' then
            (case skip_ws cs of
               [] \<Rightarrow> None
             | d # ds \<Rightarrow>
                 if d = CHR ''}'' then Some (VObj [], ds)
                 else (case parse_members n (d # ds) of
                         None \<Rightarrow> None
                       | Some (kvs, r) \<Rightarrow> Some (VObj (dict_of kvs), r)))
          else if c = CHR ''['' then
            (case skip_ws cs of
               [] \<Rightarrow> None
             | d # ds \<Rightarrow>
                 if d = CHR '']'' then Some (VArr [], ds)
                 else (case parse_elements n (d # ds) of
                         None \<Rightarrow> None
                       | Some (xs, r) \<Rightarrow> Some (VArr xs, r)))
          else if c = dquote then
            (case parse_chars cs of
               None \<Rightarrow> None
             | Some (x, r) \<Rightarrow> Some (VStr x, r))
          else if c = CHR ''t'' then literal ''true'' (VBool True) (c # cs)
          else if c = CHR ''f'' then literal ''false'' (VBool False) (c # cs)
          else if c = CHR ''n'' then literal ''null'' VNull (c # cs)
          else number (c # cs))"
| "parse_elements 0 s = None"
| "parse_elements (Suc n) s =
     (case parse_value n s of
        None \<Rightarrow> None
      | Some (x, r) \<Rightarrow>
          (case skip_ws r of
             [] \<Rightarrow> None
           | c # cs \<Rightarrow>
               if c = CHR '','' then
                 (case parse_elements n cs of
                    None \<Rightarrow> None
                  | Some (xs, r') \<Rightarrow> Some (x # xs, r'))
               else if c = CHR '']'' then Some ([x], cs)
               else None))"
| "parse_members 0 s = None"
| "parse_members (Suc n) s =
     (case skip_ws s of
        [] \<Rightarrow> None
      | q # cs \<Rightarrow>
          if q = dquote then
            (case parse_chars cs of
               None \<Rightarrow> None
             | Some (k, r1) \<Rightarrow>
                 (case skip_ws r1 of
                    [] \<Rightarrow> None
                  | c # r2 \<Rightarrow>
                      if c = CHR '':'' then
                        (case parse_value n r2 of
                           None \<Rightarrow> None
                         | Some (v, r3) \<Rightarrow>
                             (case skip_ws r3 of
                                [] \<Rightarrow> None
                              | e # r4 \<Rightarrow>
                                  if e = CHR '','' then
                                    (case parse_members n r4 of
                                       None \<Rightarrow> None
                                     | Some (kvs, r5) \<Rightarrow> Some ((k, v) # kvs, r5))
                                  else if e = CHR ''}'' then Some ([(k, v)], r4)
                                  else None))
                      else None))
          else None)"

text \<open>Modelled from the spec: the \<^verbatim>\<open>Decision\<close> of section 3 and the two failures
  of \<^verbatim>\<open>parse\<close> in section 4.3; the repository passes the parsed dict on as it
  is.\<close>

datatype parse_error = MalformedDecisionError | InvalidArgumentShapeError

record decision =
  toolName :: string
  arguments :: "(string \<times> jvalue) list"

text \<open>Modelled from the spec: the extraction of the embedded object from free text,
  which the repository leaves to the library: the recommended policy of section 4.3,
  the first balanced JSON object. The text is scanned for the first opening brace at
  which a JSON object can be read.\<close>

fun first_object :: "string \<Rightarrow> (string \<times> jvalue) list option" where
  "first_object [] = None"
| "first_object (c # cs) =
     (if c = CHR ''{'' then
        (case parse_value (Suc (length cs)) (c # cs) of
           Some (VObj kvs, r) \<Rightarrow> Some kvs
         | _ \<Rightarrow> first_object cs)
      else first_object cs)"

text \<open>Modelled from the spec: \<^verbatim>\<open>parse(raw) -> Decision\<close> of section 4.3, in place of
  the library's \<^verbatim>\<open>JsonOutputParser\<close>: \<^verbatim>\<open>MalformedDecisionError\<close> when no JSON
  object with a string \<^verbatim>\<open>name\<close> and a key \<^verbatim>\<open>arguments\<close> is found,
  \<^verbatim>\<open>InvalidArgumentShapeError\<close> when \<^verbatim>\<open>arguments\<close> is not an object.\<close>

definition parse :: "string \<Rightarrow> parse_error + decision" where
  "parse raw =
     (case first_object raw of
        None \<Rightarrow> Inl MalformedDecisionError
      | Some kvs \<Rightarrow>
          (case map_of kvs ''name'' of
             Some (VStr n) \<Rightarrow>
               (case map_of kvs ''arguments'' of
                  None \<Rightarrow> Inl MalformedDecisionError
                | Some (VObj a) \<Rightarrow> Inr \<lparr>toolName = n, arguments = a\<rparr>
                | Some _ \<Rightarrow> Inl InvalidArgumentShapeError)
           | _ \<Rightarrow> Inl MalformedDecisionError))"

text \<open>Modelled from the spec: \<^verbatim>\<open>stringify(decision)\<close> of section 8, the JSON
  serialisation of a decision, which the repository does not have: the object with
  the keys \<^verbatim>\<open>name\<close> and \<^verbatim>\<open>arguments\<close>.\<close>

definition stringify :: "decision \<Rightarrow> string" where
  "stringify d = print_value (VObj [(''name'', VStr (toolName d)), (''arguments'', VObj (arguments d))])"

text \<open>Modelled from the spec: the JSON-representable primitives of section 8, the
  values of JSON that are not an array or an object: null, a bool, a number, a
  string.\<close>

fun primitive :: "jvalue \<Rightarrow> bool" where
  "primitive (VArr xs) = False"
| "primitive (VObj kvs) = False"
| "primitive v = True"

text \<open>Modelled from the spec: a value in which no object has a key twice, as the
  mappings of section 3 are; an association list with a repeated key is not the
  mapping that is read from its serialisation.\<close>

fun distinct_keys :: "jvalue \<Rightarrow> bool" where
  "distinct_keys (VArr xs) = (\<forall>x\<in>set xs. distinct_keys x)"
| "distinct_keys (VObj kvs) = (distinct (map fst kvs) \<and> (\<forall>v\<in>set (map snd kvs). distinct_keys v))"
| "distinct_keys v = True"

text \<open>
  What may follow a printed value for it to be read back: no character that would
  continue a number. \<open>reads_back\<close> says that the printed value is read back from the
  front of any such text.
\<close>

definition ends_value :: "string \<Rightarrow> bool" where
  "ends_value rest = (case rest of [] \<Rightarrow> True | c # cs \<Rightarrow> \<not> is_digit c \<and> c \<notin> set ''.eE'')"

definition reads_back :: "jvalue \<Rightarrow> bool" where
  "reads_back v \<longleftrightarrow>
     (\<forall>n rest. length (print_value v) \<le> n \<longrightarrow> ends_value rest \<longrightarrow>
        parse_value n (print_value v @ rest) = Some (v, rest))"

section \<open>Validation and the registry\<close>

lemma failures_empty_iff: "failures rs = [] \<longleftrightarrow> rs = map Inr (successes rs)"
  by (induction rs rule: failures.induct) auto

lemma successes_map_Inr: "successes (map Inr vs) = vs"
  by (induction vs) simp_all

lemma failures_map_Inr: "failures (map Inr vs) = []"
  by (induction vs) simp_all



lemma parse_obj_Inr_iff:
  "parse_obj fs kvs = Inr vs \<longleftrightarrow> map (validate_field kvs) fs = map Inr vs"
proof
  assume "parse_obj fs kvs = Inr vs"
  then have e: "failures (map (validate_field kvs) fs) = []"
    and v: "vs = successes (map (validate_field kvs) fs)"
    by (auto simp: parse_obj_def Let_def split: if_splits)
  from e show "map (validate_field kvs) fs = map Inr vs"
    unfolding v by (simp only: failures_empty_iff)
next
  assume "map (validate_field kvs) fs = map Inr vs"
  then show "parse_obj fs kvs = Inr vs"
    by (simp add: parse_obj_def successes_map_Inr failures_map_Inr)
qed

lemma validate_field_Inr_iff:
  "validate_field kvs f = Inr w \<longleftrightarrow> (\<exists>v. map_of kvs (fname f) = Some v \<and> validator f v = Inr w)"
  by (auto simp: validate_field_def split: option.splits sum.splits)




lemma parse_obj_present:
  assumes "parse_obj fs kvs = Inr vs" and "f \<in> set fs"
  shows "map_of kvs (fname f) \<noteq> None"
proof -
  from assms(1) have m: "map (validate_field kvs) fs = map Inr vs"
    by (simp only: parse_obj_Inr_iff)
  from assms(2) obtain i where i: "i < length fs" "fs ! i = f"
    by (auto simp: in_set_conv_nth)
  from map_eq_imp_length_eq [OF m] have l: "length fs = length vs" by simp
  from arg_cong [OF m, of "\<lambda>xs. xs ! i"] i l
  have "validate_field kvs f = Inr (vs ! i)" by simp
  then show ?thesis
    by (auto simp: validate_field_Inr_iff)
qed

lemma parse_obj_length: "parse_obj fs kvs = Inr vs \<Longrightarrow> length vs = length fs"
  using map_eq_imp_length_eq [of "validate_field kvs" fs Inr vs]
  by (simp add: parse_obj_Inr_iff)

lemma kwargs_of_all:
  assumes "parse_obj fs kvs = Inr vs"
  shows "kwargs_of fs kvs vs = zip (map fname fs) vs"
proof -
  have "filter (\<lambda>(f, v). map_of kvs (fname f) \<noteq> None) (zip fs vs) = zip fs vs"
    using parse_obj_present [OF assms] by (auto simp: filter_id_conv dest: set_zip_leftD)
  then have "kwargs_of fs kvs vs = map (\<lambda>(f, v). (fname f, v)) (zip fs vs)"
    by (simp add: kwargs_of_def)
  also have "\<dots> = zip (map fname fs) vs"
    by (simp add: zip_map1)
  finally show ?thesis .
qed


lemma those_map_of_zip:
  "length ns = length vs \<Longrightarrow> distinct ns \<Longrightarrow> those (map (map_of (zip ns vs)) ns) = Some vs"
proof (induction ns vs rule: list_induct2)
  case Nil
  show ?case by simp
next
  case (Cons n ns v vs)
  have e: "map (map_of (zip (n # ns) (v # vs))) ns = map (map_of (zip ns vs)) ns"
    using Cons.prems by (intro map_cong) auto
  have "those (map (map_of (zip (n # ns) (v # vs))) (n # ns))
          = map_option (Cons v) (those (map (map_of (zip (n # ns) (v # vs))) ns))"
    by simp
  also have "\<dots> = map_option (Cons v) (those (map (map_of (zip ns vs)) ns))"
    by (simp only: e)
  also have "\<dots> = Some (v # vs)"
    using Cons by simp
  finally show ?case .
qed

lemma call_kwargs_zip:
  assumes "distinct (map fname (args_schema t))" and "length vs = length (args_schema t)"
  shows "call_kwargs t (zip (map fname (args_schema t)) vs) = (func t vs, [(name t, vs)])"
proof -
  from assms(2) have k: "map fst (zip (map fname (args_schema t)) vs) = map fname (args_schema t)"
    by simp
  have n: "\<not> list_ex (\<lambda>k. k \<notin> set (map fname (args_schema t))) (map fname (args_schema t))"
    by (simp add: list_ex_iff)
  from assms have "those (map (map_of (zip (map fname (args_schema t)) vs)) (map fname (args_schema t))) = Some vs"
    by (intro those_map_of_zip) simp_all
  with n show ?thesis
    unfolding call_kwargs_def k by simp
qed

lemma invoke_dict:
  assumes "distinct (map fname (args_schema t))"
  shows "invoke t (JObj kvs) =
           (case parse_obj (args_schema t) kvs of
              Inl e \<Rightarrow> (Inl e, [])
            | Inr vs \<Rightarrow> (func t vs, [(name t, vs)]))"
proof (cases "parse_obj (args_schema t) kvs")
  case (Inl e)
  then show ?thesis by simp
next
  case (Inr vs)
  from call_kwargs_zip [OF assms parse_obj_length [OF Inr]] kwargs_of_all [OF Inr] Inr
  show ?thesis by simp
qed


text \<open>The registry after one more insertion, and which names it knows.\<close>

lemma tool_map_snoc: "tool_map (ts @ [t]) = register t (tool_map ts)"
  by (simp add: tool_map_def)

lemma tool_map_snoc_apply:
  "tool_map (ts @ [t]) n = (if n = name t then Some t else tool_map ts n)"
  by (simp add: tool_map_snoc register_def)

lemma tool_map_None_iff: "tool_map ts n = None \<longleftrightarrow> n \<notin> name ` set ts"
proof (induction ts rule: rev_induct)
  case Nil
  show ?case by (simp add: tool_map_def)
next
  case (snoc t ts)
  then show ?case by (auto simp: tool_map_snoc_apply)
qed

lemma tool_map_SomeD: "tool_map ts n = Some t \<Longrightarrow> t \<in> set ts \<and> name t = n"
proof (induction ts rule: rev_induct)
  case Nil
  then show ?case by (simp add: tool_map_def)
next
  case (snoc u ts)
  then show ?case by (auto simp: tool_map_snoc_apply split: if_splits)
qed

lemma tool_map_registered:
  "t \<in> set ts \<Longrightarrow> distinct (map name ts) \<Longrightarrow> tool_map ts (name t) = Some t"
proof (induction ts rule: rev_induct)
  case Nil
  then show ?case by simp
next
  case (snoc u ts)
  show ?case
  proof (cases "t = u")
    case True
    then show ?thesis by (simp add: tool_map_snoc_apply)
  next
    case False
    with snoc.prems have m: "t \<in> set ts" and d: "distinct (map name ts)"
      and u: "name u \<notin> name ` set ts"
      by auto
    from m have "name t \<in> name ` set ts" by (rule imageI)
    with u have "name t \<noteq> name u" by auto
    with snoc.IH m d show ?thesis by (simp add: tool_map_snoc_apply)
  qed
qed

lemma tool_map_find: "tool_map ts n = find (\<lambda>t. name t = n) (rev ts)"
proof (induction ts rule: rev_induct)
  case Nil
  show ?case by (simp add: tool_map_def)
next
  case (snoc t ts)
  then show ?case by (simp add: tool_map_snoc_apply)
qed

section \<open>The chain on a resolved and on an unknown name\<close>

lemma dispatch_resolved:
  assumes "map_of mo ''name'' = Some (JStr n)" and "tool_map ts n = Some t"
  shows "dispatch ts (JObj mo) = pipe (itemgetter ''arguments'') (invoke t) (JObj mo)"
  using assms by (simp add: dispatch_def runnable_lambda_def tool_chain_def)

lemma pipe_itemgetter:
  "map_of mo k = Some a \<Longrightarrow> pipe (itemgetter k) r (JObj mo) = r a"
  by (simp add: pipe_def itemgetter_def split: prod.splits)

lemma dispatch_invoke:
  assumes "map_of mo ''name'' = Some (JStr n)" and "tool_map ts n = Some t"
    and "map_of mo ''arguments'' = Some a"
  shows "dispatch ts (JObj mo) = invoke t a"
  using assms by (simp add: dispatch_resolved pipe_itemgetter)

lemma dispatch_unknown:
  assumes "map_of mo ''name'' = Some (JStr n)" and "n \<notin> name ` set ts"
  shows "dispatch ts (JObj mo) = (Inl (KeyError (JStr n)), [])"
  using assms by (simp add: dispatch_def runnable_lambda_def tool_chain_def tool_map_None_iff [symmetric])

lemma dispatch_same:
  assumes "map_of mo1 ''name'' = map_of mo2 ''name''"
    and "map_of mo1 ''arguments'' = map_of mo2 ''arguments''"
  shows "dispatch ts (JObj mo1) = dispatch ts (JObj mo2)"
  using assms
  by (simp add: dispatch_def runnable_lambda_def tool_chain_def pipe_def itemgetter_def
      split: option.splits sum.splits)

lemma assign_output_entry:
  "(case fst (assign_output r (JObj mo)) of Inl e \<Rightarrow> Inl e | Inr x \<Rightarrow> getitem x ''output'') = fst (r (JObj mo))"
  by (simp add: assign_output_def update_conv' split: prod.splits sum.splits)

section \<open>The recorded cells\<close>

text \<open>
  The outputs that the notebook records for \<^verbatim>\<open>negative_comment.name\<close>,
  \<^verbatim>\<open>.description\<close>, \<^verbatim>\<open>.args\<close> and \<^verbatim>\<open>negative_comment.invoke('Zelda')\<close>, and for
  the chain with \<^verbatim>\<open>RunnablePassthrough.assign(output=tool_chain)\<close>.
\<close>

lemma negative_comment_attributes:
  "name negative_comment = ''negative_comment''"
  "description negative_comment = ''Give negative comment to this game.''"
  "map fname (args_schema negative_comment) = [''game'']"
  by (simp_all add: negative_comment_def game_field_def)

lemma negative_comment_invoke_Zelda:
  "invoke negative_comment (JStr ''Zelda'')
     = (Inr (JStr ''Zelda seems not better than Genshin Impact...''), [(''negative_comment'', [JStr ''Zelda''])])"
  by (simp add: negative_comment_def game_field_def parse_obj_def validate_field_def)

lemma distinct_game:
  "distinct (map fname (args_schema negative_comment))"
  "distinct (map fname (args_schema positive_comment))"
  by (simp_all add: negative_comment_def positive_comment_def)

lemmas tool_defs = tools_def negative_comment_def positive_comment_def game_field_def

lemma tool_map_tools:
  "tool_map tools ''negative_comment'' = Some negative_comment"
  "tool_map tools ''positive_comment'' = Some positive_comment"
  by (simp_all add: tool_map_def register_def tools_def, simp_all add: negative_comment_def positive_comment_def)

lemma names_of_tools: "name ` set tools = {''negative_comment'', ''positive_comment''}"
  by (auto simp: tool_defs)

lemma invoke_game:
  "invoke negative_comment (JObj [(''game'', JStr g)])
     = (Inr (JStr (g @ '' seems not better than Genshin Impact...'')), [(''negative_comment'', [JStr g])])"
  "invoke positive_comment (JObj [(''game'', JStr g)])
     = (Inr (JStr (g @ '' is the best game in the world !!!'')), [(''positive_comment'', [JStr g])])"
  by (simp_all add: invoke_dict distinct_game del: invoke.simps)
    (simp_all add: negative_comment_def positive_comment_def game_field_def parse_obj_def validate_field_def)

lemma assign_output_cell:
  "fst (assign_output (dispatch tools)
          (JObj [(''name'', JStr ''positive_comment''), (''arguments'', JObj [(''game'', JStr ''Zelda'')])]))
     = Inr (JObj [(''name'', JStr ''positive_comment''), (''arguments'', JObj [(''game'', JStr ''Zelda'')]),
                  (''output'', JStr ''Zelda is the best game in the world !!!'')])"
proof -
  have "dispatch tools (JObj [(''name'', JStr ''positive_comment''), (''arguments'', JObj [(''game'', JStr ''Zelda'')])])
          = invoke positive_comment (JObj [(''game'', JStr ''Zelda'')])"
    by (rule dispatch_invoke [OF _ tool_map_tools(2)]) simp_all
  then show ?thesis
    by (simp add: assign_output_def invoke_game del: invoke.simps)
qed

section \<open>Lines of the catalogue\<close>








section \<open>Printed JSON is read back\<close>

lemma digit_table:
  "n < 10 \<Longrightarrow> is_digit (''0123456789'' ! n) \<and> digit_of (''0123456789'' ! n) = n"
proof -
  assume "n < 10"
  then consider "n = 0" | "n = 1" | "n = 2" | "n = 3" | "n = 4" | "n = 5" | "n = 6" | "n = 7" | "n = 8" | "n = 9"
    by atomize_elim arith
  then show ?thesis
    by cases (simp_all add: is_digit_def digit_of_def)
qed

lemma digit_table_zero:
  "n < 10 \<Longrightarrow> ''0123456789'' ! n = CHR ''0'' \<Longrightarrow> n = 0"
  using digit_table [of n] by (auto simp: digit_of_def)

lemma str_nat_digits: "c \<in> set (str_nat n) \<Longrightarrow> is_digit c"
proof (induction n arbitrary: c rule: str_nat.induct)
  case (1 n)
  show ?case
  proof (cases "n < 10")
    case True
    with "1.prems" show ?thesis
      by (simp add: str_nat.simps [of n] digit_table)
  next
    case False
    with "1.prems" "1.IH" show ?thesis
      by (auto simp: str_nat.simps [of n] digit_table)
  qed
qed

lemma str_nat_not_Nil: "str_nat n \<noteq> []"
  by (simp add: str_nat.simps [of n])

lemma str_nat_value: "digits_value (str_nat n) = n"
  unfolding digits_value_def
proof (induction n rule: str_nat.induct)
  case (1 n)
  show ?case
  proof (cases "n < 10")
    case True
    then show ?thesis
      by (simp add: str_nat.simps [of n] digit_table)
  next
    case False
    with "1.IH" show ?thesis
      by (simp add: str_nat.simps [of n] digit_table)
  qed
qed

lemma str_nat_hd_zero: "hd (str_nat n) = CHR ''0'' \<Longrightarrow> n = 0"
proof (induction n rule: str_nat.induct)
  case (1 n)
  show ?case
  proof (cases "n < 10")
    case True
    with "1.prems" show ?thesis
      by (simp add: str_nat.simps [of n] digit_table_zero)
  next
    case False
    with "1.prems" have "hd (str_nat (n div 10)) = CHR ''0''"
      by (simp add: str_nat.simps [of n] str_nat_not_Nil)
    with False "1.IH" have "n div 10 = 0" by simp
    with False show ?thesis by simp
  qed
qed

lemma str_nat_hd_digit: "is_digit (hd (str_nat n))"
  using str_nat_not_Nil [of n] str_nat_digits [of "hd (str_nat n)" n] by simp

lemma ends_value_span:
  assumes "\<forall>c\<in>set ds. is_digit c" and "ends_value rest"
  shows "takeWhile is_digit (ds @ rest) = ds" and "dropWhile is_digit (ds @ rest) = rest"
proof -
  from assms(2) have r: "takeWhile is_digit rest = []" "dropWhile is_digit rest = rest"
    by (cases rest; simp add: ends_value_def)+
  from assms(1) show "takeWhile is_digit (ds @ rest) = ds"
    by (simp add: takeWhile_append2 r)
  from assms(1) show "dropWhile is_digit (ds @ rest) = rest"
    by (simp add: dropWhile_append2 r)
qed

lemma point_span:
  assumes "\<forall>c\<in>set ds. is_digit c"
  shows "takeWhile is_digit (ds @ CHR ''.'' # rest) = ds"
    and "dropWhile is_digit (ds @ CHR ''.'' # rest) = CHR ''.'' # rest"
  using assms by (simp_all add: takeWhile_append2 dropWhile_append2 is_digit_def)

lemma digits_value_acc:
  "foldl (\<lambda>a d. 10 * a + digit_of d) a ds = a * 10 ^ length ds + digits_value ds"
  unfolding digits_value_def
proof (induction ds arbitrary: a)
  case Nil
  show ?case by simp
next
  case (Cons d ds)
  from Cons.IH [of "10 * a + digit_of d"] Cons.IH [of "digit_of d"]
  show ?case by (simp add: algebra_simps)
qed

lemma digits_value_append:
  "digits_value (xs @ ys) = digits_value xs * 10 ^ length ys + digits_value ys"
  using digits_value_acc [of "digits_value xs" ys] by (simp add: digits_value_def)

lemma digits_value_zeros: "digits_value (replicate k CHR ''0'') = 0"
  by (induction k) (simp_all add: digits_value_def digit_of_def)

lemma digits_value_leading_zeros: "digits_value (replicate k CHR ''0'' @ ds) = digits_value ds"
  by (simp add: digits_value_append digits_value_zeros)

lemma nonzero_digit_val: "nonzero_digit (digit_val d) = d"
  by (cases d) (simp_all add: nonzero_digit_def)

lemma digit_val_range: "0 < digit_val d \<and> digit_val d < 10"
  by (cases d) simp_all

lemma decimal_canonical: "decimal neg (10 * h + digit_val d) e = Decimal neg h d e"
proof -
  from digit_val_range [of d] have "(10 * h + digit_val d) mod 10 = digit_val d"
    and "(10 * h + digit_val d) div 10 = h" and "10 * h + digit_val d \<noteq> 0"
    by simp_all
  then show ?thesis
    using digit_val_range [of d] by (simp add: decimal.simps [of neg "10 * h + digit_val d"] nonzero_digit_val)
qed

lemma decimal_shift: "0 < m \<Longrightarrow> decimal neg (m * 10 ^ k) e = decimal neg m (e + int k)"
proof (induction k arbitrary: e)
  case 0
  show ?case by simp
next
  case (Suc k)
  from Suc.prems have "m * 10 ^ Suc k \<noteq> 0" "(m * 10 ^ Suc k) mod 10 = 0" "(m * 10 ^ Suc k) div 10 = m * 10 ^ k"
    by simp_all
  then have "decimal neg (m * 10 ^ Suc k) e = decimal neg (m * 10 ^ k) (e + 1)"
    by (simp only: decimal.simps [of neg "m * 10 ^ Suc k"] if_False if_True refl)
  with Suc.IH [OF Suc.prems, of "e + 1"] show ?case
    by (simp add: algebra_simps)
qed

lemma fraction_none: "ends_value rest \<Longrightarrow> fraction rest = Some ([], rest)"
  by (cases rest) (auto simp: fraction_def ends_value_def)

lemma exponent_none: "ends_value rest \<Longrightarrow> exponent rest = Some (0, rest)"
  by (cases rest) (auto simp: exponent_def ends_value_def)

lemma fraction_digits:
  assumes "\<forall>c\<in>set fp. is_digit c" and "fp \<noteq> []" and "ends_value rest"
  shows "fraction (CHR ''.'' # fp @ rest) = Some (fp, rest)"
  using ends_value_span [OF assms(1,3)] assms(2) by (simp add: fraction_def)

lemma number_digits:
  assumes "\<forall>c\<in>set ip. is_digit c" and "ip \<noteq> []" and "hd ip = CHR ''0'' \<longrightarrow> tl ip = []"
    and "fraction r1 = Some (fp, rest)" and "ends_value rest"
    and "takeWhile is_digit (ip @ r1) = ip" and "dropWhile is_digit (ip @ r1) = r1"
  shows "number (ip @ r1) = Some (VNum (decimal False (digits_value (ip @ fp)) (- int (length fp))), rest)"
    and "number (CHR ''-'' # ip @ r1) = Some (VNum (decimal True (digits_value (ip @ fp)) (- int (length fp))), rest)"
proof -
  from assms(1,2) have "is_digit (hd ip)" by (cases ip) auto
  then have "hd ip \<noteq> CHR ''-''" by (auto simp: is_digit_def)
  with assms(2) have neg: "(case ip @ r1 of [] \<Rightarrow> False | c # cs \<Rightarrow> c = CHR ''-'') = False"
    by (cases ip) auto
  show "number (ip @ r1) = Some (VNum (decimal False (digits_value (ip @ fp)) (- int (length fp))), rest)"
    unfolding number_def neg Let_def
    using assms(2,3,4,6,7) exponent_none [OF assms(5)] by simp
  show "number (CHR ''-'' # ip @ r1) = Some (VNum (decimal True (digits_value (ip @ fp)) (- int (length fp))), rest)"
    unfolding number_def Let_def
    using assms(2,3,4,6,7) exponent_none [OF assms(5)] by simp
qed


lemma zero_is_digit: "is_digit CHR ''0''"
  by (simp add: is_digit_def)

lemma number_signed:
  assumes "\<forall>c\<in>set ip. is_digit c" and "ip \<noteq> []" and "hd ip = CHR ''0'' \<longrightarrow> tl ip = []"
    and "fraction r1 = Some (fp, rest)" and "ends_value rest"
    and "takeWhile is_digit (ip @ r1) = ip" and "dropWhile is_digit (ip @ r1) = r1"
  shows "number ((if neg then ''-'' else []) @ ip @ r1)
           = Some (VNum (decimal neg (digits_value (ip @ fp)) (- int (length fp))), rest)"
  using number_digits [OF assms] by (cases neg) simp_all

lemma number_zero:
  assumes "ends_value rest"
  shows "number (print_number Zero @ rest) = Some (VNum Zero, rest)"
proof -
  have "number ((if False then ''-'' else []) @ ''0'' @ rest)
          = Some (VNum (decimal False (digits_value (''0'' @ [])) (- int (length ([]::string)))), rest)"
    using ends_value_span [of "''0''" rest] assms
    by (intro number_signed) (simp_all add: is_digit_def fraction_none)
  then show ?thesis
    by (simp add: print_number_def digits_value_def digit_of_def decimal.simps [of _ 0])
qed

lemma number_decimal:
  assumes "ends_value rest"
  shows "number (print_number (Decimal neg h d e) @ rest) = Some (VNum (Decimal neg h d e), rest)"
proof -
  let ?m = "10 * h + digit_val d"
  let ?ds = "str_nat ?m"
  have pos: "0 < ?m" using digit_val_range [of d] by simp
  have dig: "\<forall>c\<in>set ?ds. is_digit c" by (simp add: str_nat_digits)
  have lead: "hd ?ds \<noteq> CHR ''0''"
    using str_nat_hd_zero [of ?m] pos by auto
  consider (int) "0 \<le> e" | (frac) "e < 0" "nat (- e) < length ?ds" | (small) "e < 0" "\<not> nat (- e) < length ?ds"
    by atomize_elim arith
  then show ?thesis
  proof cases
    case int
    let ?ip = "?ds @ replicate (nat e) CHR ''0''"
    have a: "\<forall>c\<in>set ?ip. is_digit c"
      using dig zero_is_digit by auto
    have b: "?ip \<noteq> []" by (simp add: str_nat_not_Nil)
    have c: "hd ?ip = CHR ''0'' \<longrightarrow> tl ?ip = []"
      using lead by (simp add: str_nat_not_Nil)
    have n: "number ((if neg then ''-'' else []) @ ?ip @ rest)
            = Some (VNum (decimal neg (digits_value (?ip @ [])) (- int (length ([]::string)))), rest)"
      using a b c fraction_none [OF assms] assms ends_value_span [OF a assms]
      by (rule number_signed)
    have v: "digits_value (?ip @ []) = ?m * 10 ^ nat e"
      by (simp add: digits_value_append digits_value_zeros str_nat_value)
    have "decimal neg (?m * 10 ^ nat e) 0 = decimal neg ?m (0 + int (nat e))"
      using pos by (rule decimal_shift)
    also have "\<dots> = Decimal neg h d e"
      using int by (simp only: decimal_canonical) simp
    finally have k: "decimal neg (?m * 10 ^ nat e) (- int (length ([]::string))) = Decimal neg h d e"
      by simp
    have p: "print_number (Decimal neg h d e) @ rest = (if neg then ''-'' else []) @ ?ip @ rest"
      using int by (simp add: print_number_def)
    show ?thesis
      by (simp only: p n v k)
  next
    case frac
    let ?k = "nat (- e)"
    let ?ip = "take (length ?ds - ?k) ?ds"
    let ?fp = "drop (length ?ds - ?k) ?ds"
    have a: "\<forall>c\<in>set ?ip. is_digit c"
      using dig by (auto dest: in_set_takeD)
    have b: "?ip \<noteq> []" using frac(2) by (simp add: str_nat_not_Nil)
    have "hd ?ip = hd ?ds" using frac(2) by (simp add: hd_take)
    with lead have c: "hd ?ip = CHR ''0'' \<longrightarrow> tl ?ip = []" by simp
    have fd: "\<forall>c\<in>set ?fp. is_digit c"
      using dig by (auto dest: in_set_dropD)
    have fn: "?fp \<noteq> []" using frac by simp
    have f: "fraction (CHR ''.'' # ?fp @ rest) = Some (?fp, rest)"
      using fd fn assms by (rule fraction_digits)
    have n: "number ((if neg then ''-'' else []) @ ?ip @ CHR ''.'' # ?fp @ rest)
            = Some (VNum (decimal neg (digits_value (?ip @ ?fp)) (- int (length ?fp))), rest)"
      using a b c f assms point_span [OF a]
      by (rule number_signed)
    have v: "digits_value (?ip @ ?fp) = ?m"
      by (simp add: str_nat_value)
    have x: "- int (length ?fp) = e"
      using frac by simp
    have p: "print_number (Decimal neg h d e) @ rest
               = (if neg then ''-'' else []) @ ?ip @ CHR ''.'' # ?fp @ rest"
      using frac by (simp add: print_number_def Let_def)
    show ?thesis
      by (simp only: p n v x decimal_canonical)
  next
    case small
    let ?k = "nat (- e)"
    let ?fp = "replicate (?k - length ?ds) CHR ''0'' @ ?ds"
    have a: "\<forall>c\<in>set ''0''. is_digit c" by (simp add: zero_is_digit)
    have fd: "\<forall>c\<in>set ?fp. is_digit c"
      using dig zero_is_digit by auto
    have fn: "?fp \<noteq> []" by (simp add: str_nat_not_Nil)
    have f: "fraction (CHR ''.'' # ?fp @ rest) = Some (?fp, rest)"
      using fd fn assms by (rule fraction_digits)
    have n: "number ((if neg then ''-'' else []) @ ''0'' @ CHR ''.'' # ?fp @ rest)
            = Some (VNum (decimal neg (digits_value (''0'' @ ?fp)) (- int (length ?fp))), rest)"
      using a _ _ f assms point_span [OF a]
      by (rule number_signed) simp_all
    have v: "digits_value (''0'' @ ?fp) = ?m"
      using digits_value_leading_zeros [of "Suc (?k - length ?ds)" ?ds] by (simp add: str_nat_value)
    have x: "- int (length ?fp) = e"
      using small by simp
    have p: "print_number (Decimal neg h d e) @ rest
               = (if neg then ''-'' else []) @ ''0'' @ CHR ''.'' # ?fp @ rest"
      using small by (simp add: print_number_def Let_def)
    show ?thesis
      by (simp only: p n v x decimal_canonical)
  qed
qed

lemma number_printed:
  "ends_value rest \<Longrightarrow> number (print_number x @ rest) = Some (VNum x, rest)"
  by (cases x) (simp_all only: number_zero number_decimal)


lemma print_number_first:
  "\<exists>c cs. print_number x = c # cs \<and> (is_digit c \<or> c = CHR ''-'')"
proof (cases x)
  case Zero
  then show ?thesis by (simp add: print_number_def zero_is_digit)
next
  case (Decimal neg h d e)
  let ?ds = "str_nat (10 * h + digit_val d)"
  obtain c cs where s: "?ds = c # cs"
    using str_nat_not_Nil [of "10 * h + digit_val d"] by (cases ?ds) auto
  with str_nat_hd_digit [of "10 * h + digit_val d"] have c: "is_digit c" by simp
  note z = zero_is_digit
  show ?thesis
  proof (cases neg)
    case True
    with Decimal show ?thesis by (simp add: print_number_def)
  next
    case False
    with Decimal s c z show ?thesis
      by (auto simp: print_number_def Let_def take_Cons' split: if_splits)
  qed
qed


lemma hex_val_hex_digit: "n < 16 \<Longrightarrow> hex_val (hex_digit n) = Some n"
proof -
  assume "n < 16"
  then consider "n = 0" | "n = 1" | "n = 2" | "n = 3" | "n = 4" | "n = 5" | "n = 6" | "n = 7"
    | "n = 8" | "n = 9" | "n = 10" | "n = 11" | "n = 12" | "n = 13" | "n = 14" | "n = 15"
    by atomize_elim arith
  then show ?thesis
    by cases (simp_all add: hex_val_def hex_digit_def is_digit_def digit_of_def)
qed

lemma hex4_control:
  assumes "of_char c < (32::nat)"
  shows "hex4 CHR ''0'' CHR ''0'' (hex_digit (of_char c div 16)) (hex_digit (of_char c mod 16))
           = Some (of_char c)"
proof -
  have z: "hex_val CHR ''0'' = Some 0"
    by (simp add: hex_val_def is_digit_def digit_of_def)
  from assms have a: "hex_val (hex_digit (of_char c div 16)) = Some (of_char c div 16)"
    by (intro hex_val_hex_digit) simp
  have b: "hex_val (hex_digit (of_char c mod 16)) = Some (of_char c mod 16)"
    by (intro hex_val_hex_digit) simp
  show ?thesis
    by (simp add: hex4_def z a b)
qed

lemma utf8_control: "of_char c < (32::nat) \<Longrightarrow> utf8 (of_char c) = [c]"
  by (simp add: utf8_def)

lemma parse_chars_escaped:
  "parse_chars (concat (map escape_char s) @ dquote # rest) = Some (s, rest)"
proof (induction s)
  case Nil
  show ?case by simp
next
  case (Cons c s)
  have q: "backslash \<noteq> dquote" "CHR ''u'' \<noteq> dquote" "CHR ''u'' \<noteq> backslash"
    by (simp_all add: backslash_def dquote_def)
  consider (dq) "c = dquote" | (bs) "c = backslash"
    | (short) "c \<in> {CHR 0x08, CHR 0x09, CHR 0x0A, CHR 0x0C, CHR 0x0D}"
    | (ctl) "c \<noteq> dquote" "c \<noteq> backslash" "c \<notin> {CHR 0x08, CHR 0x09, CHR 0x0A, CHR 0x0C, CHR 0x0D}"
        "of_char c < (32::nat)"
    | (plain) "c \<noteq> dquote" "c \<noteq> backslash" "c \<notin> {CHR 0x08, CHR 0x09, CHR 0x0A, CHR 0x0C, CHR 0x0D}"
        "\<not> of_char c < (32::nat)"
    by blast
  then show ?case
  proof cases
    case dq
    with Cons.IH q show ?thesis
      by (simp add: escape_char_def unescape_def app_chars_def)
  next
    case bs
    with Cons.IH q show ?thesis
      by (simp add: escape_char_def unescape_def app_chars_def)
  next
    case short
    then have e: "escape_char c = [backslash, the (List.find (\<lambda>e. unescape e = Some c) ''btnfr'')]"
      and u: "unescape (the (List.find (\<lambda>e. unescape e = Some c) ''btnfr'')) = Some c"
      and n: "the (List.find (\<lambda>e. unescape e = Some c) ''btnfr'') \<noteq> CHR ''u''"
      by (auto simp: escape_char_def unescape_def dquote_def backslash_def)
    from Cons.IH q show ?thesis
      by (simp add: e u n app_chars_def del: List.find.simps)
  next
    case ctl
    with Cons.IH q show ?thesis
      by (simp add: escape_char_def hex4_control utf8_control app_chars_def)
  next
    case plain
    with Cons.IH show ?thesis
      by (simp add: escape_char_def app_chars_def)
  qed
qed

lemma parse_string:
  "parse_chars (tl (print_string s) @ rest) = Some (s, rest)"
  by (simp add: print_string_def parse_chars_escaped)

lemma not_ws: "\<not> is_ws dquote" "\<not> is_ws CHR ''{''" "\<not> is_ws CHR ''}''" "\<not> is_ws CHR '',''" "\<not> is_ws CHR '':''"
  "\<not> is_ws CHR ''-''" "\<not> is_ws CHR ''t''" "\<not> is_ws CHR ''f''" "\<not> is_ws CHR ''n''" "is_ws CHR '' ''"
  "\<not> is_ws CHR ''[''" "\<not> is_ws CHR '']''"
  by (simp_all add: is_ws_def dquote_def)

lemma dquote_neq:
  "dquote \<noteq> CHR ''{''" "dquote \<noteq> CHR ''[''" "dquote \<noteq> CHR ''}''" "dquote \<noteq> CHR '',''" "dquote \<noteq> CHR '']''"
  by (simp_all add: dquote_def)

lemma digit_not_ws: "is_digit c \<Longrightarrow> \<not> is_ws c"
  by (auto simp: is_digit_def is_ws_def)

lemma digit_not_special:
  "is_digit c \<or> c = CHR ''-'' \<Longrightarrow>
     c \<noteq> CHR ''{'' \<and> c \<noteq> CHR ''['' \<and> c \<noteq> dquote \<and> c \<noteq> CHR ''t'' \<and> c \<noteq> CHR ''f'' \<and> c \<noteq> CHR ''n''"
  by (auto simp: is_digit_def dquote_def)

lemma parse_value_primitive:
  assumes "primitive v" and "ends_value rest"
  shows "parse_value (Suc n) (print_value v @ rest) = Some (v, rest)"
proof (cases v)
  case VNull
  then show ?thesis
    by (simp add: skip_ws_def not_ws literal_def dquote_def)
next
  case (VBool b)
  then show ?thesis
    by (simp add: skip_ws_def not_ws literal_def dquote_def)
next
  case (VNum x)
  obtain c cs where s: "print_number x = c # cs" and c: "is_digit c \<or> c = CHR ''-''"
    using print_number_first [of x] by blast
  from c have w: "\<not> is_ws c"
    using digit_not_ws not_ws(6) by blast
  have "number (c # cs @ rest) = Some (VNum x, rest)"
    using number_printed [OF assms(2), of x] by (simp add: s)
  with VNum s w digit_not_special [OF c] show ?thesis
    by (simp add: skip_ws_def)
next
  case (VStr x)
  have "parse_chars (tl (print_string x) @ rest) = Some (x, rest)"
    by (rule parse_string)
  with VStr show ?thesis
    by (simp add: skip_ws_def not_ws print_string_def dquote_neq)
next
  case (VArr xs)
  with assms show ?thesis by simp
next
  case (VObj kvs)
  with assms show ?thesis by simp
qed

lemma print_value_not_Nil: "print_value v \<noteq> []"
proof (cases v)
  case (VNum x)
  with print_number_first [of x] show ?thesis by auto
qed (simp_all add: print_string_def)

lemma primitive_reads_back: "primitive v \<Longrightarrow> reads_back v"
  unfolding reads_back_def
proof (intro allI impI)
  fix n rest
  assume p: "primitive v" and l: "length (print_value v) \<le> n" and e: "ends_value rest"
  from l print_value_not_Nil [of v] obtain m where "n = Suc m"
    by (cases n) auto
  with p e show "parse_value n (print_value v @ rest) = Some (v, rest)"
    by (simp only: parse_value_primitive)
qed

lemma parse_value_space: "parse_value n (CHR '' '' # s) = parse_value n s"
  by (cases n) (simp_all add: skip_ws_def not_ws)

lemma parse_members_space: "parse_members n (CHR '' '' # s) = parse_members n s"
  by (cases n) (simp_all add: skip_ws_def not_ws)

lemma parse_elements_space: "parse_elements n (CHR '' '' # s) = parse_elements n s"
  by (cases n) (simp_all add: parse_value_space)

lemma ends_value_sep: "ends_value (CHR '','' # s)" "ends_value (CHR ''}'' # s)" "ends_value (CHR '']'' # s)"
  by (simp_all add: ends_value_def is_digit_def)

lemma parse_member:
  assumes "reads_back v" and "length (print_string k @ '': '' @ print_value v) \<le> Suc n"
    and "x = CHR '','' \<or> x = CHR ''}''"
  shows "parse_members (Suc n) (print_string k @ '': '' @ print_value v @ x # rest) =
           (if x = CHR '','' then
              (case parse_members n rest of None \<Rightarrow> None | Some (kvs, r) \<Rightarrow> Some ((k, v) # kvs, r))
            else Some ([(k, v)], rest))"
proof -
  have k: "parse_chars (tl (print_string k) @ '': '' @ print_value v @ x # rest)
             = Some (k, '': '' @ print_value v @ x # rest)"
    by (rule parse_string)
  from assms(2) have "length (print_value v) \<le> n"
    by (simp add: print_string_def)
  moreover from assms(3) have "ends_value (x # rest)"
    using ends_value_sep by blast
  ultimately have v: "parse_value n (print_value v @ x # rest) = Some (v, x # rest)"
    using assms(1) by (simp add: reads_back_def)
  from assms(3) have x: "\<not> is_ws x"
    using not_ws by blast
  show ?thesis
    using k v x assms(3)
    by (auto simp: skip_ws_def not_ws print_string_def parse_value_space)
qed

lemma parse_members_printed:
  assumes "kvs \<noteq> []" and "\<forall>(k, v)\<in>set kvs. reads_back v"
    and "length (join '', '' (map (\<lambda>(k, v). print_string k @ '': '' @ print_value v) kvs)) \<le> n"
  shows "parse_members n (join '', '' (map (\<lambda>(k, v). print_string k @ '': '' @ print_value v) kvs) @ CHR ''}'' # rest)
           = Some (kvs, rest)"
  using assms
proof (induction kvs arbitrary: n rule: induct_list012)
  case 1
  then show ?case by simp
next
  case (2 kv)
  obtain k v where kv: "kv = (k, v)" by (cases kv)
  from "2.prems"(3) kv obtain m where n: "n = Suc m"
    by (cases n) (auto simp: print_string_def)
  from "2.prems"(2) kv have r: "reads_back v" by simp
  from "2.prems"(3) kv n have l: "length (print_string k @ '': '' @ print_value v) \<le> Suc m"
    by simp
  from parse_member [OF r l, of "CHR ''}''" rest] show ?case
    by (simp add: kv n)
next
  case (3 kv kv' kvs)
  obtain k v where kv: "kv = (k, v)" by (cases kv)
  let ?more = "join '', '' (map (\<lambda>(k, v). print_string k @ '': '' @ print_value v) (kv' # kvs))"
  from "3.prems"(3) kv obtain m where n: "n = Suc m"
    by (cases n) (auto simp: print_string_def)
  from "3.prems"(2) kv have r: "reads_back v" by simp
  from "3.prems"(3) kv n have l: "length (print_string k @ '': '' @ print_value v) \<le> Suc m"
    and l': "length ?more \<le> m"
    by simp_all
  from "3.prems"(2) have "\<forall>(k, v)\<in>set (kv' # kvs). reads_back v" by simp
  with "3.IH"(2) [of m] l' have ih: "parse_members m (?more @ CHR ''}'' # rest) = Some (kv' # kvs, rest)"
    by simp
  from parse_member [OF r l, of "CHR '',''" "CHR '' '' # ?more @ CHR ''}'' # rest"] ih
  show ?case
    by (simp add: kv n parse_members_space)
qed

lemma parse_element:
  assumes "reads_back v" and "length (print_value v) \<le> n"
    and "x = CHR '','' \<or> x = CHR '']''"
  shows "parse_elements (Suc n) (print_value v @ x # rest) =
           (if x = CHR '','' then
              (case parse_elements n rest of None \<Rightarrow> None | Some (xs, r) \<Rightarrow> Some (v # xs, r))
            else Some ([v], rest))"
proof -
  from assms(3) have "ends_value (x # rest)"
    using ends_value_sep by blast
  with assms(1,2) have v: "parse_value n (print_value v @ x # rest) = Some (v, x # rest)"
    by (simp add: reads_back_def)
  from assms(3) have x: "\<not> is_ws x"
    using not_ws by blast
  show ?thesis
    using v x assms(3) by (auto simp: skip_ws_def)
qed

lemma parse_elements_printed:
  assumes "xs \<noteq> []" and "\<forall>x\<in>set xs. reads_back x"
    and "Suc (length (join '', '' (map print_value xs))) \<le> n"
  shows "parse_elements n (join '', '' (map print_value xs) @ CHR '']'' # rest) = Some (xs, rest)"
  using assms
proof (induction xs arbitrary: n rule: induct_list012)
  case 1
  then show ?case by simp
next
  case (2 x)
  from "2.prems"(3) obtain m where n: "n = Suc m"
    by (cases n) auto
  from "2.prems"(2) have r: "reads_back x" by simp
  from "2.prems"(3) n have l: "length (print_value x) \<le> m"
    by simp
  from parse_element [OF r l, of "CHR '']''" rest] show ?case
    by (simp add: n)
next
  case (3 x y ys)
  let ?more = "join '', '' (map print_value (y # ys))"
  from "3.prems"(3) obtain m where n: "n = Suc m"
    by (cases n) auto
  from "3.prems"(2) have r: "reads_back x" by simp
  from "3.prems"(3) n have l: "length (print_value x) \<le> m"
    and l': "Suc (length ?more) \<le> m"
    by simp_all
  from "3.prems"(2) have "\<forall>x\<in>set (y # ys). reads_back x" by simp
  with "3.IH"(2) [of m] l' have ih: "parse_elements m (?more @ CHR '']'' # rest) = Some (y # ys, rest)"
    by simp
  from parse_element [OF r l, of "CHR '',''" "CHR '' '' # ?more @ CHR '']'' # rest"] ih
  show ?case
    by (simp add: n parse_elements_space)
qed

lemma update_fresh: "k \<notin> fst ` set m \<Longrightarrow> AList.update k v m = m @ [(k, v)]"
  by (induction m) auto

lemma dict_of_acc:
  "distinct (map fst (acc @ kvs)) \<Longrightarrow>
     foldl (\<lambda>m (k, v). AList.update k v m) acc kvs = acc @ kvs"
proof (induction kvs arbitrary: acc)
  case Nil
  show ?case by simp
next
  case (Cons kv kvs)
  obtain k v where kv: "kv = (k, v)" by (cases kv)
  from Cons.prems kv have "k \<notin> fst ` set acc" by auto
  then have u: "AList.update k v acc = acc @ [(k, v)]" by (rule update_fresh)
  from Cons.prems kv have "distinct (map fst ((acc @ [(k, v)]) @ kvs))" by simp
  from Cons.IH [OF this] show ?case by (simp add: kv u)
qed

lemma dict_of_distinct: "distinct (map fst kvs) \<Longrightarrow> dict_of kvs = kvs"
  using dict_of_acc [of "[]" kvs] by (simp add: dict_of_def)

lemma members_first:
  "kvs \<noteq> [] \<Longrightarrow>
     \<exists>cs. join '', '' (map (\<lambda>(k, v). print_string k @ '': '' @ print_value v) kvs) = dquote # cs"
  by (induction kvs rule: induct_list012) (auto simp: print_string_def)

lemma print_value_first:
  "\<exists>c cs. print_value v = c # cs \<and> c \<noteq> CHR '']'' \<and> \<not> is_ws c"
proof (cases v)
  case (VNum x)
  obtain c cs where s: "print_number x = c # cs" and c: "is_digit c \<or> c = CHR ''-''"
    using print_number_first [of x] by blast
  from c have "\<not> is_ws c" "c \<noteq> CHR '']''"
    using digit_not_ws not_ws(6) by (auto simp: is_digit_def)
  with VNum s show ?thesis by simp
qed (simp_all add: print_string_def not_ws dquote_neq)

lemma elements_first:
  "xs \<noteq> [] \<Longrightarrow> \<exists>c cs. join '', '' (map print_value xs) = c # cs \<and> c \<noteq> CHR '']'' \<and> \<not> is_ws c"
proof (induction xs rule: induct_list012)
  case 1
  then show ?case by simp
next
  case (2 x)
  from print_value_first [of x] show ?case by simp
next
  case (3 x y ys)
  from print_value_first [of x] show ?case by auto
qed

lemma parse_value_object:
  assumes "\<forall>(k, v)\<in>set kvs. reads_back v" and "distinct (map fst kvs)"
    and "length (print_value (VObj kvs)) \<le> n"
  shows "parse_value n (print_value (VObj kvs) @ rest) = Some (VObj kvs, rest)"
proof (cases "kvs = []")
  case True
  from assms(3) obtain m where "n = Suc m" by (cases n) auto
  with True show ?thesis
    by (simp add: skip_ws_def not_ws)
next
  case False
  let ?ms = "join '', '' (map (\<lambda>(k, v). print_string k @ '': '' @ print_value v) kvs)"
  from assms(3) obtain m where n: "n = Suc m" by (cases n) auto
  from members_first [OF False] obtain cs where cs: "?ms = dquote # cs" by blast
  from assms(3) n have "length ?ms \<le> m" by simp
  from parse_members_printed [OF False assms(1) this, of rest]
  have "parse_members m (dquote # cs @ CHR ''}'' # rest) = Some (kvs, rest)"
    unfolding cs by simp
  moreover have "print_value (VObj kvs) @ rest = CHR ''{'' # dquote # cs @ CHR ''}'' # rest"
    unfolding print_value.simps cs by simp
  ultimately show ?thesis
    unfolding n by (simp add: skip_ws_def not_ws dquote_neq dict_of_distinct [OF assms(2)])
qed

lemma parse_value_array:
  assumes "\<forall>x\<in>set xs. reads_back x" and "length (print_value (VArr xs)) \<le> n"
  shows "parse_value n (print_value (VArr xs) @ rest) = Some (VArr xs, rest)"
proof (cases "xs = []")
  case True
  from assms(2) obtain m where "n = Suc m" by (cases n) auto
  with True show ?thesis
    by (simp add: skip_ws_def not_ws)
next
  case False
  let ?es = "join '', '' (map print_value xs)"
  from assms(2) obtain m where n: "n = Suc m" by (cases n) auto
  from elements_first [OF False] obtain c cs where cs: "?es = c # cs" and c: "c \<noteq> CHR '']''" "\<not> is_ws c"
    by blast
  from assms(2) n have "Suc (length ?es) \<le> m" by simp
  from parse_elements_printed [OF False assms(1) this, of rest]
  have "parse_elements m (c # cs @ CHR '']'' # rest) = Some (xs, rest)"
    unfolding cs by simp
  moreover have "print_value (VArr xs) @ rest = CHR ''['' # c # cs @ CHR '']'' # rest"
    unfolding print_value.simps cs by simp
  ultimately show ?thesis
    unfolding n using c by (simp add: skip_ws_def not_ws)
qed

lemma distinct_keys_reads_back: "distinct_keys v \<Longrightarrow> reads_back v"
proof (induction v)
  case (VArr xs)
  then have "\<forall>x\<in>set xs. reads_back x" by simp
  then show ?case
    unfolding reads_back_def [of "VArr xs"] by (blast intro: parse_value_array)
next
  case (VObj kvs)
  then have "\<forall>(k, v)\<in>set kvs. reads_back v" and "distinct (map fst kvs)"
    by fastforce+
  then show ?case
    unfolding reads_back_def [of "VObj kvs"] by (blast intro: parse_value_object)
qed (simp_all add: primitive_reads_back)

lemma first_object_prose:
  "CHR ''{'' \<notin> set prose \<Longrightarrow> first_object (prose @ s) = first_object s"
  by (induction prose) auto


lemma first_object_printed:
  assumes "distinct_keys (VObj kvs)"
  shows "first_object (print_value (VObj kvs) @ trailer) = Some kvs"
proof -
  obtain cs where cs: "print_value (VObj kvs) @ trailer = CHR ''{'' # cs"
    by simp
  then have "length (print_value (VObj kvs) @ trailer) = Suc (length cs)"
    by (simp only: length_Cons)
  then have l: "length (print_value (VObj kvs)) \<le> Suc (length cs)"
    by simp
  from assms have d: "distinct (map fst kvs)" and dk: "\<forall>v\<in>set (map snd kvs). distinct_keys v"
    by simp_all
  have "reads_back v" if "(k, v) \<in> set kvs" for k v
  proof -
    from that have "v \<in> set (map snd kvs)" by force
    with dk have "distinct_keys v" by blast
    then show ?thesis by (rule distinct_keys_reads_back)
  qed
  then have "\<forall>(k, v)\<in>set kvs. reads_back v" by blast
  from parse_value_object [OF this d l, of trailer]
  have "parse_value (Suc (length cs)) (CHR ''{'' # cs) = Some (VObj kvs, trailer)"
    by (simp only: cs)
  then show ?thesis
    unfolding cs by (simp del: parse_value.simps)
qed

lemma parse_printed:
  assumes "CHR ''{'' \<notin> set prose" and "distinct_keys (VObj kvs)"
    and "map_of kvs ''name'' = Some (VStr n)" and "map_of kvs ''arguments'' = Some (VObj a)"
  shows "parse (prose @ print_value (VObj kvs) @ trailer) = Inr \<lparr>toolName = n, arguments = a\<rparr>"
  using assms(3,4)
  by (simp add: parse_def first_object_prose [OF assms(1)] first_object_printed [OF assms(2)]
      del: print_value.simps)

lemma primitive_distinct_keys: "primitive v \<Longrightarrow> distinct_keys v"
  by (cases v) simp_all


section \<open>The claims\<close>

text \<open>
  C1. A decision that names a tool of the list, the names of the list being distinct,
  and whose \<^verbatim>\<open>arguments\<close> are exactly the declared parameters of that tool, is
  dispatched to the same outcome, result and calls, as the direct chain
  \<^verbatim>\<open>itemgetter('arguments') | tool\<close> on the same reply: what that tool's own
  \<open>invoke\<close> gives for the arguments. The equality holds whether or not the types
  of the tool accept the values.
\<close>

theorem dispatch_equals_direct_invocation:
  assumes "t \<in> set ts" and "distinct (map name ts)"
    and "map_of mo ''name'' = Some (JStr (name t))"
    and "map_of mo ''arguments'' = Some (JObj a)"
    and "set (map fst a) = set (map fname (args_schema t))"
  shows "dispatch ts (JObj mo) = pipe (itemgetter ''arguments'') (invoke t) (JObj mo) \<and>
         dispatch ts (JObj mo) = invoke t (JObj a)"
proof -
  from assms(1,2) have r: "tool_map ts (name t) = Some t"
    by (rule tool_map_registered)
  from dispatch_resolved [OF assms(3) r] dispatch_invoke [OF assms(3) r assms(4)]
  show ?thesis by (rule conjI)
qed

theorem dispatch_equals_direct_invocation_witness:
  "dispatch tools (JObj [(''name'', JStr ''positive_comment''), (''arguments'', JObj [(''game'', JStr ''Zelda'')])])
     = pipe (itemgetter ''arguments'') (invoke positive_comment)
         (JObj [(''name'', JStr ''positive_comment''), (''arguments'', JObj [(''game'', JStr ''Zelda'')])]) \<and>
   dispatch tools (JObj [(''name'', JStr ''positive_comment''), (''arguments'', JObj [(''game'', JStr ''Zelda'')])])
     = invoke positive_comment (JObj [(''game'', JStr ''Zelda'')]) \<and>
   invoke positive_comment (JObj [(''game'', JStr ''Zelda'')])
     = (Inr (JStr ''Zelda is the best game in the world !!!''), [(''positive_comment'', [JStr ''Zelda''])])"
proof -
  let ?mo = "[(''name'', JStr ''positive_comment''), (''arguments'', JObj [(''game'', JStr ''Zelda'')])]"
  let ?a = "[(''game'', JStr ''Zelda'')]"
  have 1: "positive_comment \<in> set tools" by (simp add: tools_def)
  have 2: "distinct (map name tools)" by (simp add: tool_defs)
  have 3: "map_of ?mo ''name'' = Some (JStr (name positive_comment))"
    by (simp add: positive_comment_def)
  have 4: "map_of ?mo ''arguments'' = Some (JObj ?a)" by simp
  have 5: "set (map fst ?a) = set (map fname (args_schema positive_comment))"
    by (simp add: positive_comment_def game_field_def)
  note e = dispatch_equals_direct_invocation [OF 1 2 3 4 5]
  have i: "invoke positive_comment (JObj [(''game'', JStr ''Zelda'')])
     = (Inr (JStr ''Zelda is the best game in the world !!!''), [(''positive_comment'', [JStr ''Zelda''])])"
    using invoke_game(2) [of "''Zelda''"] by (simp del: invoke.simps)
  show ?thesis
    by (rule conjI [OF conjunct1 [OF e] conjI [OF conjunct2 [OF e] i]])
qed

text \<open>
  C2, as amended. A decision whose \<^verbatim>\<open>name\<close> is not a key of \<^verbatim>\<open>tool_map\<close> fails
  with the \<open>KeyError\<close> of the dict lookup, carrying the name, and no function of a
  tool is entered; the same holds under \<^verbatim>\<open>RunnablePassthrough.assign\<close>.
\<close>

theorem unknown_tool_is_key_error:
  assumes "map_of mo ''name'' = Some (JStr n)" and "n \<notin> name ` set ts"
  shows "dispatch ts (JObj mo) = (Inl (KeyError (JStr n)), []) \<and>
         assign_output (dispatch ts) (JObj mo) = (Inl (KeyError (JStr n)), [])"
  using dispatch_unknown [OF assms] by (simp add: assign_output_def)

theorem unknown_tool_is_key_error_witness:
  "dispatch tools (JObj [(''name'', JStr ''translate_comment''), (''arguments'', JObj [(''game'', JStr ''Zelda'')])])
     = (Inl (KeyError (JStr ''translate_comment'')), []) \<and>
   assign_output (dispatch tools) (JObj [(''name'', JStr ''translate_comment''), (''arguments'', JObj [(''game'', JStr ''Zelda'')])])
     = (Inl (KeyError (JStr ''translate_comment'')), [])"
  using unknown_tool_is_key_error [of
      "[(''name'', JStr ''translate_comment''), (''arguments'', JObj [(''game'', JStr ''Zelda'')])]"
      "''translate_comment''" tools]
  by (simp add: names_of_tools)

text \<open>
  C2 as stated speaks of an error of its own for the unknown tool. The chain has
  none: \<^verbatim>\<open>translate_comment\<close> fails with a \<open>KeyError\<close>, and the failure for an
  unregistered tool called \<^verbatim>\<open>arguments\<close> is, value for value, the failure of a
  decision that names the registered \<^verbatim>\<open>negative_comment\<close> and has no
  \<^verbatim>\<open>arguments\<close> key.
\<close>

theorem unknown_tool_counterexample:
  "dispatch tools (JObj [(''name'', JStr ''translate_comment''), (''arguments'', JObj [(''game'', JStr ''Zelda'')])])
     = (Inl (KeyError (JStr ''translate_comment'')), []) \<and>
   dispatch tools (JObj [(''name'', JStr ''arguments''), (''arguments'', JObj [(''game'', JStr ''Zelda'')])])
     = (Inl (KeyError (JStr ''arguments'')), []) \<and>
   dispatch tools (JObj [(''name'', JStr ''negative_comment'')])
     = (Inl (KeyError (JStr ''arguments'')), [])"
proof -
  have "dispatch tools (JObj [(''name'', JStr ''negative_comment'')])
          = pipe (itemgetter ''arguments'') (invoke negative_comment) (JObj [(''name'', JStr ''negative_comment'')])"
    by (rule dispatch_resolved [OF _ tool_map_tools(1)]) simp
  then have "dispatch tools (JObj [(''name'', JStr ''negative_comment'')]) = (Inl (KeyError (JStr ''arguments'')), [])"
    by (simp add: pipe_def itemgetter_def)
  then show ?thesis
    by (simp add: dispatch_unknown names_of_tools)
qed

text \<open>
  C3, as amended. Inserting a tool under a name that \<^verbatim>\<open>tool_map\<close> already holds
  does not fail: the later tool replaces the earlier one, so the lookup of that name
  returns the second registration, and every other name keeps its tool.
\<close>

theorem duplicate_name_replaces_first:
  assumes "tool_map ts (name t) = Some t0"
  shows "tool_map (ts @ [t]) (name t) = Some t \<and>
         (\<forall>n. n \<noteq> name t \<longrightarrow> tool_map (ts @ [t]) n = tool_map ts n)"
  by (simp add: tool_map_snoc_apply)

theorem duplicate_name_replaces_first_witness:
  "tool_map ([negative_comment, positive_comment] @ [negative_comment\<lparr>description := ''Give no comment.''\<rparr>])
       (name (negative_comment\<lparr>description := ''Give no comment.''\<rparr>))
     = Some (negative_comment\<lparr>description := ''Give no comment.''\<rparr>) \<and>
   tool_map ([negative_comment, positive_comment] @ [negative_comment\<lparr>description := ''Give no comment.''\<rparr>])
       ''positive_comment''
     = tool_map [negative_comment, positive_comment] ''positive_comment''"
proof -
  have n: "name (negative_comment\<lparr>description := ''Give no comment.''\<rparr>) = ''negative_comment''"
    by (simp add: negative_comment_def)
  have 1: "tool_map [negative_comment, positive_comment] (name (negative_comment\<lparr>description := ''Give no comment.''\<rparr>))
             = Some negative_comment"
    using tool_map_tools(1) by (simp only: n tools_def)
  from duplicate_name_replaces_first [OF 1] show ?thesis
    by (simp add: n)
qed

text \<open>
  C3 as stated fails: after \<^verbatim>\<open>negative_comment\<close> and a second tool of the same
  name with another description, the lookup returns the second tool and not the
  first.
\<close>

theorem duplicate_name_counterexample:
  "tool_map [negative_comment] ''negative_comment'' = Some negative_comment \<and>
   tool_map [negative_comment, negative_comment\<lparr>description := ''Give no comment.''\<rparr>] ''negative_comment''
     = Some (negative_comment\<lparr>description := ''Give no comment.''\<rparr>) \<and>
   tool_map [negative_comment, negative_comment\<lparr>description := ''Give no comment.''\<rparr>] ''negative_comment''
     \<noteq> Some negative_comment"
  by (simp add: tool_map_def register_def) (simp add: negative_comment_def)







text \<open>
  C6. For every decision whose arguments are JSON primitives (null, a bool, a number,
  a string) under distinct keys, parsing the JSON serialisation of the decision
  returns the decision: \<^verbatim>\<open>parse(stringify(decision)) == decision\<close>.
\<close>

theorem parse_stringify_roundtrip:
  assumes "distinct (map fst (arguments d))" and "\<forall>(k, v)\<in>set (arguments d). primitive v"
  shows "parse (stringify d) = Inr d"
proof -
  let ?kvs = "[(''name'', VStr (toolName d)), (''arguments'', VObj (arguments d))]"
  have "distinct_keys v" if "v \<in> set (map snd (arguments d))" for v
  proof -
    from that obtain k where "(k, v) \<in> set (arguments d)" by auto
    with assms(2) have "primitive v" by blast
    then show ?thesis by (rule primitive_distinct_keys)
  qed
  with assms(1) have "distinct_keys (VObj ?kvs)"
    by simp
  from parse_printed [OF _ this, of "[]" "toolName d" "arguments d" "[]"] show ?thesis
    by (simp add: stringify_def del: print_value.simps)
qed

theorem parse_stringify_roundtrip_witness:
  "stringify \<lparr>toolName = ''negative_comment'',
      arguments = [(''game'', VStr (''Pok'' @ [CHR 0xC3, CHR 0xA9] @ ''mon'' @ [newline] @ ''Go'')),
                   (''score'', VNum (Decimal False 1 D5 (- 1))),
                   (''debt'', VNum (Decimal True 1 D5 2)),
                   (''owned'', VBool True), (''note'', VNull)]\<rparr>
     = ''{'' @ [dquote] @ ''name'' @ [dquote] @ '': '' @ [dquote] @ ''negative_comment'' @ [dquote] @ '', ''
         @ [dquote] @ ''arguments'' @ [dquote] @ '': {''
         @ [dquote] @ ''game'' @ [dquote] @ '': '' @ [dquote] @ ''Pok'' @ [CHR 0xC3, CHR 0xA9] @ ''mon''
             @ [backslash] @ ''nGo'' @ [dquote] @ '', ''
         @ [dquote] @ ''score'' @ [dquote] @ '': 1.5, ''
         @ [dquote] @ ''debt'' @ [dquote] @ '': -1500, ''
         @ [dquote] @ ''owned'' @ [dquote] @ '': true, ''
         @ [dquote] @ ''note'' @ [dquote] @ '': null}}'' \<and>
   parse (stringify \<lparr>toolName = ''negative_comment'',
      arguments = [(''game'', VStr (''Pok'' @ [CHR 0xC3, CHR 0xA9] @ ''mon'' @ [newline] @ ''Go'')),
                   (''score'', VNum (Decimal False 1 D5 (- 1))),
                   (''debt'', VNum (Decimal True 1 D5 2)),
                   (''owned'', VBool True), (''note'', VNull)]\<rparr>)
     = Inr \<lparr>toolName = ''negative_comment'',
      arguments = [(''game'', VStr (''Pok'' @ [CHR 0xC3, CHR 0xA9] @ ''mon'' @ [newline] @ ''Go'')),
                   (''score'', VNum (Decimal False 1 D5 (- 1))),
                   (''debt'', VNum (Decimal True 1 D5 2)),
                   (''owned'', VBool True), (''note'', VNull)]\<rparr>"
proof
  show "stringify \<lparr>toolName = ''negative_comment'',
      arguments = [(''game'', VStr (''Pok'' @ [CHR 0xC3, CHR 0xA9] @ ''mon'' @ [newline] @ ''Go'')),
                   (''score'', VNum (Decimal False 1 D5 (- 1))),
                   (''debt'', VNum (Decimal True 1 D5 2)),
                   (''owned'', VBool True), (''note'', VNull)]\<rparr>
     = ''{'' @ [dquote] @ ''name'' @ [dquote] @ '': '' @ [dquote] @ ''negative_comment'' @ [dquote] @ '', ''
         @ [dquote] @ ''arguments'' @ [dquote] @ '': {''
         @ [dquote] @ ''game'' @ [dquote] @ '': '' @ [dquote] @ ''Pok'' @ [CHR 0xC3, CHR 0xA9] @ ''mon''
             @ [backslash] @ ''nGo'' @ [dquote] @ '', ''
         @ [dquote] @ ''score'' @ [dquote] @ '': 1.5, ''
         @ [dquote] @ ''debt'' @ [dquote] @ '': -1500, ''
         @ [dquote] @ ''owned'' @ [dquote] @ '': true, ''
         @ [dquote] @ ''note'' @ [dquote] @ '': null}}''"
    by (simp add: stringify_def print_string_def escape_char_def print_number_def str_nat.simps
        dquote_def backslash_def newline_def numeral_2_eq_2)
next
  show "parse (stringify \<lparr>toolName = ''negative_comment'',
      arguments = [(''game'', VStr (''Pok'' @ [CHR 0xC3, CHR 0xA9] @ ''mon'' @ [newline] @ ''Go'')),
                   (''score'', VNum (Decimal False 1 D5 (- 1))),
                   (''debt'', VNum (Decimal True 1 D5 2)),
                   (''owned'', VBool True), (''note'', VNull)]\<rparr>)
     = Inr \<lparr>toolName = ''negative_comment'',
      arguments = [(''game'', VStr (''Pok'' @ [CHR 0xC3, CHR 0xA9] @ ''mon'' @ [newline] @ ''Go'')),
                   (''score'', VNum (Decimal False 1 D5 (- 1))),
                   (''debt'', VNum (Decimal True 1 D5 2)),
                   (''owned'', VBool True), (''note'', VNull)]\<rparr>"
    by (rule parse_stringify_roundtrip) simp_all
qed






text \<open>
  C9. With \<^verbatim>\<open>negative_comment\<close> and \<^verbatim>\<open>positive_comment\<close> registered, the decision
  for \<^verbatim>\<open>negative_comment\<close> with \<^verbatim>\<open>{'game': 'Zelda'}\<close> gives
  \<^verbatim>\<open>'Zelda seems not better than Genshin Impact...'\<close> and the decision for
  \<^verbatim>\<open>positive_comment\<close> gives \<^verbatim>\<open>'Zelda is the best game in the world !!!'\<close>.
\<close>

theorem scenarios_negative_and_positive:
  "dispatch [negative_comment, positive_comment]
       (JObj [(''name'', JStr ''negative_comment''), (''arguments'', JObj [(''game'', JStr ''Zelda'')])])
     = (Inr (JStr ''Zelda seems not better than Genshin Impact...''), [(''negative_comment'', [JStr ''Zelda''])]) \<and>
   dispatch [negative_comment, positive_comment]
       (JObj [(''name'', JStr ''positive_comment''), (''arguments'', JObj [(''game'', JStr ''Zelda'')])])
     = (Inr (JStr ''Zelda is the best game in the world !!!''), [(''positive_comment'', [JStr ''Zelda''])])"
proof -
  have "dispatch tools (JObj [(''name'', JStr ''negative_comment''), (''arguments'', JObj [(''game'', JStr ''Zelda'')])])
          = invoke negative_comment (JObj [(''game'', JStr ''Zelda'')])"
    by (rule dispatch_invoke [OF _ tool_map_tools(1)]) simp_all
  moreover
  have "dispatch tools (JObj [(''name'', JStr ''positive_comment''), (''arguments'', JObj [(''game'', JStr ''Zelda'')])])
          = invoke positive_comment (JObj [(''game'', JStr ''Zelda'')])"
    by (rule dispatch_invoke [OF _ tool_map_tools(2)]) simp_all
  ultimately show ?thesis
    by (simp add: invoke_game tools_def del: invoke.simps)
qed

text \<open>
  C10. Two parsed replies that agree on the keys \<^verbatim>\<open>name\<close> and \<^verbatim>\<open>arguments\<close> are
  dispatched to the same outcome, result and calls, whatever other keys they hold;
  under \<^verbatim>\<open>RunnablePassthrough.assign(output=tool_chain)\<close> the \<^verbatim>\<open>output\<close> entries
  and the calls agree as well.
\<close>

theorem dispatch_reads_name_and_arguments_only:
  assumes "map_of mo1 ''name'' = map_of mo2 ''name''"
    and "map_of mo1 ''arguments'' = map_of mo2 ''arguments''"
  shows "dispatch ts (JObj mo1) = dispatch ts (JObj mo2) \<and>
         (case fst (assign_output (dispatch ts) (JObj mo1)) of Inl e \<Rightarrow> Inl e | Inr x \<Rightarrow> getitem x ''output'')
           = (case fst (assign_output (dispatch ts) (JObj mo2)) of Inl e \<Rightarrow> Inl e | Inr x \<Rightarrow> getitem x ''output'') \<and>
         snd (assign_output (dispatch ts) (JObj mo1)) = snd (assign_output (dispatch ts) (JObj mo2))"
proof -
  have d: "dispatch ts (JObj mo1) = dispatch ts (JObj mo2)"
    using assms by (rule dispatch_same)
  have s: "snd (assign_output r (JObj mo)) = snd (r (JObj mo))" for r mo
    by (simp add: assign_output_def split: prod.splits sum.splits)
  show ?thesis
    by (simp only: assign_output_entry s d)
qed

theorem dispatch_reads_name_and_arguments_only_witness:
  "dispatch tools (JObj [(''thought'', JStr ''Zelda is a Zelda game''), (''name'', JStr ''positive_comment''),
        (''arguments'', JObj [(''game'', JStr ''Zelda'')]), (''output'', JNull)])
     = dispatch tools (JObj [(''name'', JStr ''positive_comment''), (''arguments'', JObj [(''game'', JStr ''Zelda'')])])"
proof -
  let ?mo1 = "[(''thought'', JStr ''Zelda is a Zelda game''), (''name'', JStr ''positive_comment''),
        (''arguments'', JObj [(''game'', JStr ''Zelda'')]), (''output'', JNull)]"
  let ?mo2 = "[(''name'', JStr ''positive_comment''), (''arguments'', JObj [(''game'', JStr ''Zelda'')])]"
  have 1: "map_of ?mo1 ''name'' = map_of ?mo2 ''name''" by simp
  have 2: "map_of ?mo1 ''arguments'' = map_of ?mo2 ''arguments''" by simp
  from dispatch_reads_name_and_arguments_only [OF 1 2, of tools] show ?thesis
    by (rule conjunct1)
qed

end
